theory Spec2Isabelle
  imports Main "HOL-Library.Multiset"
begin

section \<open>Text\<close>

text \<open>
  A Python \<open>str\<close> is modelled as a \<open>string\<close>, one \<open>char\<close> per code point; the 256
  characters of HOL stand for the code points U+0000 to U+00FF, and the character classes
  below are the ones Python's \<open>str\<close> methods and the \<open>re\<close> module use on that range.
\<close>

definition code :: "char \<Rightarrow> nat" where
  "code c = of_char c"

text \<open>\<open>str.isspace\<close>, which is also the class \<open>\s\<close> and what \<open>str.strip()\<close> removes.\<close>

definition is_space :: "char \<Rightarrow> bool" where
  "is_space c =
     ((9 \<le> code c \<and> code c \<le> 13) \<or> (28 \<le> code c \<and> code c \<le> 32)
      \<or> code c = 133 \<or> code c = 160)"

text \<open>The class \<open>\d\<close>: the decimal digits, below U+0100 the ASCII ones only.\<close>

definition is_digit :: "char \<Rightarrow> bool" where
  "is_digit c = (48 \<le> code c \<and> code c \<le> 57)"

text \<open>The class \<open>[a-zA-Z]\<close>.\<close>

definition is_ascii_alpha :: "char \<Rightarrow> bool" where
  "is_ascii_alpha c =
     ((65 \<le> code c \<and> code c \<le> 90) \<or> (97 \<le> code c \<and> code c \<le> 122))"

definition is_ascii_lower :: "char \<Rightarrow> bool" where
  "is_ascii_lower c = (97 \<le> code c \<and> code c \<le> 122)"

text \<open>
  The class \<open>\w\<close>: the underscore and every character that is alphabetic or numeric for
  \<open>str.isalnum\<close> (letters, digits, the ordinal indicators, the micro sign, the superscript
  digits and the vulgar fractions of the range).
\<close>

definition is_word :: "char \<Rightarrow> bool" where
  "is_word c =
     (is_digit c \<or> is_ascii_alpha c \<or> code c = 95
      \<or> code c = 170 \<or> code c = 178 \<or> code c = 179 \<or> code c = 181
      \<or> code c = 185 \<or> code c = 186 \<or> (188 \<le> code c \<and> code c \<le> 190)
      \<or> (192 \<le> code c \<and> code c \<le> 214) \<or> (216 \<le> code c \<and> code c \<le> 246)
      \<or> 248 \<le> code c)"

text \<open>\<open>str.lower()\<close>: the capitals A to Z and U+00C0 to U+00DE (the sign U+00D7 apart)
  move down by 32.\<close>

definition lower_char :: "char \<Rightarrow> char" where
  "lower_char c =
     (if (65 \<le> code c \<and> code c \<le> 90) \<or> (192 \<le> code c \<and> code c \<le> 222 \<and> code c \<noteq> 215)
      then char_of (code c + 32) else c)"

definition lower :: "string \<Rightarrow> string" where
  "lower s = map lower_char s"

text \<open>
  \<open>str.upper()\<close>: the small letters a to z and U+00E0 to U+00FE (the sign U+00F7 apart)
  move up by 32 and the sharp s becomes \<open>SS\<close>. The capitals of U+00B5 and U+00FF lie
  beyond U+00FF; the model leaves these two characters as they are. The source compares an
  upper-cased text with \<open>M\<close> and \<open>F\<close> only, which neither capital equals.
\<close>

definition upper_char :: "char \<Rightarrow> string" where
  "upper_char c =
     (if (97 \<le> code c \<and> code c \<le> 122) \<or> (224 \<le> code c \<and> code c \<le> 254 \<and> code c \<noteq> 247)
      then [char_of (code c - 32)]
      else if code c = 223 then ''SS'' else [c])"

definition upper :: "string \<Rightarrow> string" where
  "upper s = concat (map upper_char s)"

definition strip :: "string \<Rightarrow> string" where
  "strip s = rev (dropWhile is_space (rev (dropWhile is_space s)))"

text \<open>\<open>t in s\<close> for two texts: \<open>t\<close> occurs in \<open>s\<close> as a contiguous piece.\<close>

definition starts_with :: "string \<Rightarrow> string \<Rightarrow> bool" where
  "starts_with t s = (take (length t) s = t)"

fun contains :: "string \<Rightarrow> string \<Rightarrow> bool" where
  "contains t [] = (t = [])"
| "contains t (c # cs) = (starts_with t (c # cs) \<or> contains t cs)"

text \<open>\<open>any(w in s for w in ws)\<close>.\<close>

definition any_in :: "string list \<Rightarrow> string \<Rightarrow> bool" where
  "any_in ws s = list_ex (\<lambda>w. contains w s) ws"

text \<open>\<open>" ".join(cells)\<close>.\<close>

fun join_space :: "string list \<Rightarrow> string" where
  "join_space [] = []"
| "join_space [x] = x"
| "join_space (x # y # ys) = x @ CHR '' '' # join_space (y # ys)"

section \<open>Numbers and their decimal text\<close>

text \<open>Python's integers are unbounded: they are modelled as \<open>int\<close>.\<close>

definition digit_val :: "char \<Rightarrow> int" where
  "digit_val c = int (code c) - 48"

text \<open>\<open>int(ds)\<close> for a run of digits, read from the left.\<close>

definition int_of_digits :: "string \<Rightarrow> int" where
  "int_of_digits ds = foldl (\<lambda>n c. 10 * n + digit_val c) 0 ds"

definition digit_char :: "int \<Rightarrow> char" where
  "digit_char d = char_of (48 + d)"

text \<open>\<open>str(n)\<close>: the decimal digits of a number that is not negative, and the sign before
  those of a negative one.\<close>

function decimal :: "int \<Rightarrow> string" where
  "decimal n = (if n < 10 then [digit_char n] else decimal (n div 10) @ [digit_char (n mod 10)])"
  by pat_completeness auto
termination
  by (relation "measure nat") auto

declare decimal.simps [simp del]

definition str_int :: "int \<Rightarrow> string" where
  "str_int i = (if i < 0 then CHR ''-'' # decimal (- i) else decimal i)"

text \<open>
  The interpreter converts between a number and its decimal text only up to a number of
  digits, \<open>sys.int_info.default_max_str_digits\<close>, which is 4300 unless the interpreter is
  configured otherwise. Beyond it \<open>int(ds)\<close> (the digits of the text are counted, leading
  zeros too) and \<open>str(n)\<close> (the digits of the number are counted, not its sign) raise a
  \<open>ValueError\<close>. \<open>TypeError\<close> is what \<open>len\<close> raises for an object that has no length.
\<close>

datatype error = TypeError | ValueError

definition int_max_str_digits :: nat where
  "int_max_str_digits = 4300"

definition py_int :: "string \<Rightarrow> error + int" where
  "py_int ds =
     (if int_max_str_digits < length ds then Inl ValueError else Inr (int_of_digits ds))"

definition py_str :: "int \<Rightarrow> error + string" where
  "py_str n =
     (if int_max_str_digits < length (decimal \<bar>n\<bar>) then Inl ValueError
      else Inr (str_int n))"

section \<open>Regular expressions\<close>

text \<open>
  Every pattern the source searches for is a sequence of character classes, each with a
  repetition count: a piece \<open>(p, lo, hi)\<close> stands for the class \<open>p\<close> repeated at least
  \<open>lo\<close> and at most \<open>hi\<close> times (\<open>None\<close>: no upper limit). The source only asks whether
  such a pattern matches somewhere, so the order in which a backtracking matcher tries the
  repetitions does not matter: \<open>matches_at ps n s\<close> holds when the pattern \<open>ps\<close>, whose first
  piece has already taken \<open>n\<close> characters, can match a prefix of \<open>s\<close>.
\<close>

type_synonym piece = "(char \<Rightarrow> bool) \<times> nat \<times> nat option"

fun matches_at :: "piece list \<Rightarrow> nat \<Rightarrow> string \<Rightarrow> bool" where
  "matches_at [] n s = True"
| "matches_at ((p, lo, hi) # ps) n [] = (lo \<le> n \<and> matches_at ps 0 [])"
| "matches_at ((p, lo, hi) # ps) n (c # cs) =
     ((lo \<le> n \<and> matches_at ps 0 (c # cs))
      \<or> (p c \<and> (case hi of None \<Rightarrow> True | Some h \<Rightarrow> n < h)
          \<and> matches_at ((p, lo, hi) # ps) (Suc n) cs))"

text \<open>\<open>re.search(pattern, s)\<close> finds a match: the pattern matches at some position.\<close>

fun re_search :: "piece list \<Rightarrow> string \<Rightarrow> bool" where
  "re_search ps [] = matches_at ps 0 []"
| "re_search ps (c # cs) = (matches_at ps 0 (c # cs) \<or> re_search ps cs)"

definition rx_one :: "(char \<Rightarrow> bool) \<Rightarrow> piece" where
  "rx_one p = (p, 1, Some 1)"

definition rx_many :: "(char \<Rightarrow> bool) \<Rightarrow> piece" where
  "rx_many p = (p, 1, None)"

definition rx_at_least :: "nat \<Rightarrow> (char \<Rightarrow> bool) \<Rightarrow> piece" where
  "rx_at_least lo p = (p, lo, None)"

definition rx_between :: "nat \<Rightarrow> nat \<Rightarrow> (char \<Rightarrow> bool) \<Rightarrow> piece" where
  "rx_between lo hi p = (p, lo, Some hi)"

definition rx_optional :: "(char \<Rightarrow> bool) \<Rightarrow> piece" where
  "rx_optional p = (p, 0, Some 1)"

definition is_char :: "char \<Rightarrow> char \<Rightarrow> bool" where
  "is_char a c = (c = a)"

text \<open>The class \<open>[/-]\<close>.\<close>

definition is_date_sep :: "char \<Rightarrow> bool" where
  "is_date_sep c = (c = CHR ''/'' \<or> c = CHR ''-'')"

text \<open>The first match of \<open>\d+\<close>: the first digit of the text with all digits that follow it.\<close>

definition first_digit_run :: "string \<Rightarrow> string" where
  "first_digit_run s = takeWhile is_digit (dropWhile (\<lambda>c. \<not> is_digit c) s)"

section \<open>The utility functions\<close>

text \<open>
  \<open>safe_normalize_cell\<close>: a raw cell is a text or null (\<open>None\<close>). Carriage returns and line
  feeds become spaces, the text is stripped, and \<open>re.sub(r"\s+", " ", s)\<close> puts one space
  for every maximal run of white space. No step of it can raise on a text, so the handler
  (which returns the empty text) has no branch in the model.
\<close>

definition replace_char :: "char \<Rightarrow> char \<Rightarrow> string \<Rightarrow> string" where
  "replace_char a b s = map (\<lambda>c. if c = a then b else c) s"

function sub_spaces :: "string \<Rightarrow> string" where
  "sub_spaces [] = []"
| "sub_spaces (c # cs) =
     (if is_space c then CHR '' '' # sub_spaces (dropWhile is_space cs)
      else c # sub_spaces cs)"
  by pat_completeness auto
termination
  by (relation "measure length") (auto simp: less_Suc_eq_le length_dropWhile_le)

definition safe_normalize_cell :: "string option \<Rightarrow> string" where
  "safe_normalize_cell cell =
     (case cell of
        None \<Rightarrow> []
      | Some x \<Rightarrow>
          sub_spaces (strip (replace_char (CHR 0x0A) (CHR '' '')
                               (replace_char (CHR 0x0D) (CHR '' '') x))))"

text \<open>
  \<open>safe_extract_number\<close>: \<open>None\<close> for the empty text and for a text without a digit,
  otherwise the number its first digit run denotes. When \<open>int\<close> raises, for a run of more
  digits than the interpreter converts, the handler returns \<open>None\<close>.
\<close>

definition safe_extract_number :: "string \<Rightarrow> int option" where
  "safe_extract_number text =
     (if text = [] then None
      else (case first_digit_run text of
              [] \<Rightarrow> None
            | d # ds \<Rightarrow> (case py_int (d # ds) of
                          Inl e \<Rightarrow> None
                        | Inr n \<Rightarrow> Some n)))"

section \<open>Floating point\<close>

text \<open>
  The source divides the months by 12 as a double, and reads a decimal numeral as a double
  that it prints again. Both are computed here in integer arithmetic. A double that is at
  least 1 is a multiple of \<open>2\<^sup>-\<^sup>5\<^sup>2\<close> and is represented by the integer
  \<open>x * 2\<^sup>5\<^sup>2\<close>; \<open>to_double a b\<close> is the double nearest to \<open>a / b\<close> (for \<open>a \<ge> b > 0\<close>),
  ties going to the even significand: with \<open>e\<close> the position of the leading bit of the
  quotient, the doubles around it are the multiples of \<open>2\<^sup>e\<close> in that unit.
\<close>

function bit_length :: "int \<Rightarrow> nat" where
  "bit_length n = (if n \<le> 0 then 0 else Suc (bit_length (n div 2)))"
  by pat_completeness auto
termination
  by (relation "measure nat") auto

declare bit_length.simps [simp del]

definition round_half_even :: "int \<Rightarrow> int \<Rightarrow> int" where
  "round_half_even a b =
     (let q = a div b; r = a mod b
      in if 2 * r < b \<or> (2 * r = b \<and> even q) then q else q + 1)"

definition to_double :: "int \<Rightarrow> int \<Rightarrow> int" where
  "to_double a b =
     (let u = 2 ^ (bit_length (a div b) - 1)
      in round_half_even (a * 2 ^ 52) (b * u) * u)"

text \<open>
  \<open>months / 12\<close>: the division raises \<open>OverflowError\<close> (\<open>None\<close>) when the nearest double
  would be \<open>2\<^sup>1\<^sup>0\<^sup>2\<^sup>4\<close> or more.
\<close>

definition true_div_12 :: "int \<Rightarrow> int option" where
  "true_div_12 months =
     (let y = to_double months 12 in if 2 ^ 1076 \<le> y then None else Some y)"

text \<open>\<open>years == int(years)\<close>, \<open>int(years)\<close> and the format \<open>.1f\<close> (one decimal, the nearest
  one to the double, a tie going to the even digit).\<close>

definition is_whole :: "int \<Rightarrow> bool" where
  "is_whole y = (y mod 2 ^ 52 = 0)"

definition int_of_double :: "int \<Rightarrow> int" where
  "int_of_double y = y div 2 ^ 52"

definition format_1f :: "int \<Rightarrow> string" where
  "format_1f y =
     (let t = round_half_even (y * 10) (2 ^ 52)
      in decimal (t div 10) @ CHR ''.'' # decimal (t mod 10))"

text \<open>
  \<open>float(i.f)\<close> for the digits \<open>i\<close> before and \<open>f\<close> after the point, in the unit
  \<open>2\<^sup>-\<^sup>5\<^sup>6\<close>, where the numeral denotes a number from \<open>1/16\<close> up to but not including 64.
  Outside that window (\<open>None\<close>) the double is at most 0.0625 or at least 64, which is all
  that the range test of the caller needs.
\<close>

definition float_of_decimal :: "string \<Rightarrow> string \<Rightarrow> int option" where
  "float_of_decimal i f =
     (let a = int_of_digits (i @ f); b = 10 ^ length f
      in if b \<le> 16 * a \<and> a < 64 * b then Some (to_double (16 * a) b) else None)"

text \<open>
  \<open>0.1 <= x <= 50\<close> in that unit: the literal \<open>0.1\<close> is the double
  \<open>7205759403792794 * 2\<^sup>-\<^sup>5\<^sup>6\<close>.
\<close>

definition in_years_range :: "int \<Rightarrow> bool" where
  "in_years_range x = (7205759403792794 \<le> x \<and> x \<le> 50 * 2 ^ 56)"

text \<open>
  \<open>str(x)\<close> for a double of that range: the decimal with the fewest digits that reads back
  as \<open>x\<close>, the nearest to \<open>x\<close> among those, printed with at least one digit after the
  point. Seventeen significant digits always read back.
\<close>

definition decimal_candidate :: "int \<Rightarrow> nat \<Rightarrow> int" where
  "decimal_candidate x k = round_half_even (x * 10 ^ k) (2 ^ 56)"

definition reads_back :: "int \<Rightarrow> nat \<Rightarrow> bool" where
  "reads_back x k = (to_double (16 * decimal_candidate x k) (10 ^ k) = x)"

definition print_decimal :: "int \<Rightarrow> nat \<Rightarrow> string" where
  "print_decimal m k =
     (if k = 0 then decimal m @ ''.0''
      else (let frac = decimal (m mod 10 ^ k)
            in decimal (m div 10 ^ k) @ CHR ''.'' # replicate (k - length frac) (CHR ''0'') @ frac))"

definition str_double :: "int \<Rightarrow> string" where
  "str_double x =
     (case find (reads_back x) [0..<17] of
        Some k \<Rightarrow> print_decimal (decimal_candidate x k) k
      | None \<Rightarrow> print_decimal (decimal_candidate x 17) 17)"

text \<open>
  \<open>convert_months_to_years\<close>. \<open>not months\<close> holds for \<open>None\<close> and for the number 0.
  The handler returns the text itself; the only step that can raise is the division.
\<close>

definition convert_months_to_years :: "string \<Rightarrow> string" where
  "convert_months_to_years months_text =
     (if months_text = [] then []
      else (case safe_extract_number months_text of
              None \<Rightarrow> months_text
            | Some months \<Rightarrow>
                if months = 0 then months_text
                else if months < 12 then str_int months @ '' months''
                else (case true_div_12 months of
                        None \<Rightarrow> months_text
                      | Some years \<Rightarrow>
                          if is_whole years then str_int (int_of_double years) @ '' years''
                          else format_1f years @ '' years'')))"

section \<open>The row classifier\<close>

definition exclude_terms :: "string list" where
  "exclude_terms =
     [''total'', ''percentage'', ''built'', ''area'', ''laboratory'', ''playground'',
      ''establishment'', ''recognition'', ''accreditation'', ''department wise'',
      ''category wise'', ''grand total'', ''sub total'', ''overall'', ''summary'']"

text \<open>
  \<open>is_potential_faculty_row\<close>, for a row of texts (the caller passes normalized cells).
  The tests come in the order of the source; none of them can raise on a row of texts.
\<close>

definition is_potential_faculty_row :: "string list \<Rightarrow> bool" where
  "is_potential_faculty_row row =
     (if row = [] \<or> length row < 2 then False
      else let first_cell = strip (row ! 0) in
        if first_cell = [] \<or> 10 < length first_cell then False
        else if \<not> re_search [rx_one is_digit] first_cell then False
        else (case safe_extract_number first_cell of
                None \<Rightarrow> False
              | Some serial_num \<Rightarrow>
          if serial_num = 0 \<or> serial_num < 1 \<or> 9999 < serial_num then False
          else let second_cell = strip (row ! 1) in
            if second_cell = [] \<or> length second_cell < 2 then False
            else if \<not> re_search [rx_at_least 2 is_ascii_alpha] second_cell
                    \<or> 100 < length second_cell then False
            else let row_text = lower (join_space (take 5 row)) in
              if any_in exclude_terms row_text then False
              else let non_empty = length (filter (\<lambda>cell. strip cell \<noteq> []) row) in
                if non_empty < 3 then False else True))"

section \<open>The field-inference engine\<close>

text \<open>
  A record is the dictionary of the source: a text for each of its twelve keys. The nine
  flags are the keys of \<open>filled_fields\<close>.
\<close>

datatype column =
    S_No | Name | Age | Designation | Gender | Qualification | Experience_in_years
  | Currently_working | Joining_Date | Leaving_Date | Association_type | Institution_name

datatype flag =
    F_Age | F_Gender | F_Designation | F_Qualification | F_Experience | F_Working
  | F_JoiningDate | F_LeavingDate | F_Association

type_synonym faculty = "column \<Rightarrow> string"

text \<open>\<open>record.values()\<close>.\<close>

definition record_values :: "faculty \<Rightarrow> string list" where
  "record_values r =
     map r [S_No, Name, Age, Designation, Gender, Qualification, Experience_in_years,
            Currently_working, Joining_Date, Leaving_Date, Association_type,
            Institution_name]"

record scan_state =
  the_record :: faculty
  filled_fields :: "flag \<Rightarrow> bool"

text \<open>A rule that fires names the key it writes, the flag it sets and the text it stores.\<close>

type_synonym assignment = "column \<times> flag \<times> string"

definition assign :: "assignment \<Rightarrow> scan_state \<Rightarrow> scan_state" where
  "assign a st =
     (case a of (col, fl, v) \<Rightarrow>
        st\<lparr>the_record := (the_record st)(col := v),
           filled_fields := (filled_fields st)(fl := True)\<rparr>)"

subsection \<open>What each rule looks for in a cell\<close>

definition age_match :: "string \<Rightarrow> string option" where
  "age_match cell_value =
     (case safe_extract_number cell_value of
        None \<Rightarrow> None
      | Some age \<Rightarrow>
          if age \<noteq> 0 \<and> 18 \<le> age \<and> age \<le> 80 \<and> length cell_value \<le> 3
          then Some (str_int age) else None)"

text \<open>\<open>re.match(r'^(m|f)$', s)\<close>: the end anchor also matches before a final line feed.\<close>

definition match_m_or_f :: "string \<Rightarrow> bool" where
  "match_m_or_f s = (s \<in> set [''m'', ''f'', [CHR ''m'', CHR 0x0A], [CHR ''f'', CHR 0x0A]])"

definition gender_match :: "string \<Rightarrow> string option" where
  "gender_match cell_value =
     (if lower cell_value \<in> set [''m'', ''f'', ''male'', ''female'', ''man'', ''woman'']
         \<or> upper cell_value \<in> set [''M'', ''F'']
         \<or> match_m_or_f (lower cell_value)
      then Some (if upper cell_value \<in> set [''M'', ''F''] then upper cell_value
                 else cell_value)
      else None)"

definition designation_keywords :: "string list" where
  "designation_keywords =
     [''professor'', ''lecturer'', ''assistant'', ''associate'', ''principal'',
      ''hod'', ''dean'', ''director'', ''registrar'', ''instructor'', ''demonstrator'',
      ''tutor'', ''fellow'', ''coordinator'', ''librarian'']"

definition designation_match :: "string \<Rightarrow> bool" where
  "designation_match cell_value = any_in designation_keywords (lower cell_value)"

definition experience_indicators :: "string list" where
  "experience_indicators =
     [''month'', ''year'', ''experience'', ''exp'', ''service'', ''teaching'', ''working'',
      ''employed'', ''tenure'', ''duration'', ''period'', ''months'', ''years'', ''yrs'']"

text \<open>
  The first match of \<open>(\d+\.\d+)\<close>, tried at each position from the left: a maximal run
  of digits, a point, and the maximal run of digits after it (at least one).
\<close>

fun first_decimal :: "string \<Rightarrow> (string \<times> string) option" where
  "first_decimal [] = None"
| "first_decimal (c # cs) =
     (let i = takeWhile is_digit (c # cs); rest = dropWhile is_digit (c # cs)
      in if i \<noteq> [] \<and> rest \<noteq> [] \<and> hd rest = CHR ''.''
            \<and> takeWhile is_digit (tl rest) \<noteq> []
         then Some (i, takeWhile is_digit (tl rest))
         else first_decimal cs)"

text \<open>Pattern 3 of the experience rule: a decimal numeral whose double lies in the range.\<close>

definition decimal_years :: "string \<Rightarrow> string option" where
  "decimal_years cell_value =
     (case first_decimal cell_value of
        None \<Rightarrow> None
      | Some (i, f) \<Rightarrow>
          (case float_of_decimal i f of
             None \<Rightarrow> None
           | Some decimal_num \<Rightarrow>
               if in_years_range decimal_num then Some (str_double decimal_num @ '' years'')
               else None))"

text \<open>Pattern 2: the number of the cell is not an age and is a plausible count of months.\<close>

definition plain_months :: "string \<Rightarrow> bool" where
  "plain_months cell_value =
     (case safe_extract_number cell_value of
        None \<Rightarrow> False
      | Some number \<Rightarrow>
          number \<noteq> 0 \<and> \<not> (18 \<le> number \<and> number \<le> 80) \<and> 1 \<le> number \<and> number \<le> 600)"

definition experience_match :: "string \<Rightarrow> string option" where
  "experience_match cell_value =
     (let has_number = re_search [rx_many is_digit] cell_value;
          has_experience_keyword = any_in experience_indicators (lower cell_value)
      in if has_experience_keyword \<and> has_number
         then Some (convert_months_to_years cell_value)
         else if has_number \<and> plain_months cell_value
         then Some (convert_months_to_years cell_value)
         else decimal_years cell_value)"

definition working_patterns :: "string list" where
  "working_patterns =
     [''yes'', ''no'', ''working'', ''current'', ''permanent'', ''temporary'',
      ''continuing'', ''resigned'', ''retired'', ''active'', ''inactive'']"

definition working_match :: "string \<Rightarrow> bool" where
  "working_match cell_value = any_in working_patterns (lower cell_value)"

definition date_patterns :: "piece list list" where
  "date_patterns =
     [[rx_between 1 2 is_digit, rx_one is_date_sep, rx_between 1 2 is_digit,
       rx_one is_date_sep, rx_between 2 4 is_digit],
      [rx_between 1 2 is_digit, rx_many is_space, rx_many is_word, rx_many is_space,
       rx_between 2 4 is_digit],
      [rx_many is_word, rx_many is_space, rx_between 1 2 is_digit,
       rx_optional (is_char (CHR '','')), rx_many is_space, rx_between 2 4 is_digit],
      [rx_between 2 4 is_digit, rx_one is_date_sep, rx_between 1 2 is_digit,
       rx_one is_date_sep, rx_between 1 2 is_digit],
      [rx_between 4 4 is_digit, rx_one (is_char (CHR ''-'')), rx_between 2 2 is_digit]]"

definition date_match :: "string \<Rightarrow> bool" where
  "date_match cell_value =
     (let is_date = list_ex (\<lambda>pattern. re_search pattern cell_value) date_patterns
      in is_date \<or> re_search [rx_between 4 4 is_digit] cell_value)"

definition qual_keywords :: "string list" where
  "qual_keywords =
     [''phd'', ''ph.d'', ''doctorate'', ''mtech'', ''m.tech'', ''btech'', ''b.tech'',
      ''msc'', ''m.sc'', ''bsc'', ''b.sc'', ''mba'', ''mca'', ''diploma'', ''degree'',
      ''engineering'', ''medicine'', ''commerce'', ''arts'', ''science'', ''b.e'',
      ''m.e'', ''master'', ''bachelor'', ''pg'', ''ug'']"

definition is_b_or_m :: "char \<Rightarrow> bool" where
  "is_b_or_m c = (c = CHR ''b'' \<or> c = CHR ''m'')"

definition qualification_match :: "string \<Rightarrow> bool" where
  "qualification_match cell_value =
     (any_in qual_keywords (lower cell_value)
      \<or> re_search [rx_one is_b_or_m, rx_one (is_char (CHR ''.'')), rx_at_least 2 is_ascii_lower]
           (lower cell_value)
      \<or> (2 < length cell_value \<and> length cell_value < 50
          \<and> re_search [rx_at_least 3 is_ascii_alpha] cell_value))"

text \<open>\<open>re.match(r'^\d+$', s)\<close>: digits only, but for a final line feed.\<close>

definition match_all_digits :: "string \<Rightarrow> bool" where
  "match_all_digits s =
     (takeWhile is_digit s \<noteq> []
      \<and> (dropWhile is_digit s = [] \<or> dropWhile is_digit s = [CHR 0x0A]))"

definition association_shape :: "string \<Rightarrow> bool" where
  "association_shape cell_value =
     (1 < length cell_value \<and> length cell_value < 100
      \<and> \<not> match_all_digits cell_value \<and> 2 < length cell_value)"

subsection \<open>The rules, each behind the flag of its field\<close>

definition age_rule :: "string \<Rightarrow> scan_state \<Rightarrow> assignment option" where
  "age_rule cell_value st =
     (if \<not> filled_fields st F_Age
      then (case age_match cell_value of None \<Rightarrow> None | Some v \<Rightarrow> Some (Age, F_Age, v))
      else None)"

definition gender_rule :: "string \<Rightarrow> scan_state \<Rightarrow> assignment option" where
  "gender_rule cell_value st =
     (if \<not> filled_fields st F_Gender
      then (case gender_match cell_value of
              None \<Rightarrow> None
            | Some v \<Rightarrow> Some (Gender, F_Gender, v))
      else None)"

definition designation_rule :: "string \<Rightarrow> scan_state \<Rightarrow> assignment option" where
  "designation_rule cell_value st =
     (if \<not> filled_fields st F_Designation \<and> designation_match cell_value
      then Some (Designation, F_Designation, cell_value) else None)"

definition experience_rule :: "string \<Rightarrow> scan_state \<Rightarrow> assignment option" where
  "experience_rule cell_value st =
     (if \<not> filled_fields st F_Experience
      then (case experience_match cell_value of
              None \<Rightarrow> None
            | Some v \<Rightarrow> Some (Experience_in_years, F_Experience, v))
      else None)"

definition working_rule :: "string \<Rightarrow> scan_state \<Rightarrow> assignment option" where
  "working_rule cell_value st =
     (if \<not> filled_fields st F_Working \<and> working_match cell_value
      then Some (Currently_working, F_Working, cell_value) else None)"

definition date_rule :: "string \<Rightarrow> scan_state \<Rightarrow> assignment option" where
  "date_rule cell_value st =
     (if (\<not> filled_fields st F_JoiningDate \<or> \<not> filled_fields st F_LeavingDate)
         \<and> date_match cell_value
      then (if \<not> filled_fields st F_JoiningDate
            then Some (Joining_Date, F_JoiningDate, cell_value)
            else if \<not> filled_fields st F_LeavingDate
            then Some (Leaving_Date, F_LeavingDate, cell_value)
            else None)
      else None)"

definition qualification_rule :: "string \<Rightarrow> scan_state \<Rightarrow> assignment option" where
  "qualification_rule cell_value st =
     (if \<not> filled_fields st F_Qualification \<and> qualification_match cell_value
      then Some (Qualification, F_Qualification, cell_value) else None)"

definition association_rule :: "string \<Rightarrow> scan_state \<Rightarrow> assignment option" where
  "association_rule cell_value st =
     (if \<not> filled_fields st F_Association \<and> association_shape cell_value
         \<and> cell_value \<notin> set (record_values (the_record st))
      then Some (Association_type, F_Association, cell_value) else None)"

text \<open>The rules in the order of the source; the first one that fires takes the cell.\<close>

fun first_some :: "'a option list \<Rightarrow> 'a option" where
  "first_some [] = None"
| "first_some (None # xs) = first_some xs"
| "first_some (Some a # xs) = Some a"

definition fired :: "string \<Rightarrow> scan_state \<Rightarrow> assignment option" where
  "fired cell_value st =
     first_some
       [age_rule cell_value st, gender_rule cell_value st, designation_rule cell_value st,
        experience_rule cell_value st, working_rule cell_value st, date_rule cell_value st,
        qualification_rule cell_value st, association_rule cell_value st]"

text \<open>One turn of the loop over \<open>row[2:]\<close>.\<close>

definition skipped :: "string \<Rightarrow> bool" where
  "skipped cell_value = (cell_value = [] \<or> lower cell_value \<in> set [''nan'', ''none'', []])"

definition scan_cell :: "scan_state \<Rightarrow> string \<Rightarrow> scan_state" where
  "scan_cell st cell =
     (let cell_value = strip cell
      in if skipped cell_value then st
         else (case fired cell_value st of None \<Rightarrow> st | Some a \<Rightarrow> assign a st))"

text \<open>The dictionary and the flags before the loop, for a list of texts and a serial
  number that \<open>str\<close> has converted.\<close>

definition initial_state :: "string list \<Rightarrow> string \<Rightarrow> int \<Rightarrow> scan_state" where
  "initial_state row institution_name serial_num =
     \<lparr>the_record =
        (\<lambda>col. [])(S_No := str_int serial_num,
                   Name := (if 1 < length row then strip (row ! 1) else []),
                   Institution_name := institution_name),
      filled_fields = (\<lambda>fl. False)\<rparr>"

definition scan :: "string list \<Rightarrow> string \<Rightarrow> int \<Rightarrow> scan_state" where
  "scan row institution_name serial_num =
     foldl scan_cell (initial_state row institution_name serial_num) (drop 2 row)"

subsection \<open>The fallback passes\<close>

definition remaining_cells :: "string list \<Rightarrow> faculty \<Rightarrow> string list" where
  "remaining_cells row r =
     filter (\<lambda>cell_value. cell_value \<noteq> [] \<and> cell_value \<notin> set (record_values r)
                \<and> 1 < length cell_value \<and> lower cell_value \<notin> set [''nan'', ''none''])
       (map strip (drop 2 row))"

definition experience_candidate :: "string \<Rightarrow> bool" where
  "experience_candidate cell =
     (re_search [rx_many is_digit] cell
      \<and> (case safe_extract_number cell of
            None \<Rightarrow> False
          | Some number \<Rightarrow>
              number \<noteq> 0 \<and> 1 \<le> number \<and> number \<le> 600
              \<and> \<not> (18 \<le> number \<and> number \<le> 80)))"

text \<open>Each pass takes the first cell of the list that fits; the first two remove it.\<close>

definition experience_fallback :: "faculty \<times> string list \<Rightarrow> faculty \<times> string list" where
  "experience_fallback rr =
     (case rr of (r, remaining) \<Rightarrow>
        if r Experience_in_years = [] \<and> remaining \<noteq> []
        then (case find experience_candidate remaining of
                None \<Rightarrow> (r, remaining)
              | Some cell \<Rightarrow>
                  (r(Experience_in_years := convert_months_to_years cell),
                   remove1 cell remaining))
        else (r, remaining))"

definition qualification_fallback :: "faculty \<times> string list \<Rightarrow> faculty \<times> string list" where
  "qualification_fallback rr =
     (case rr of (r, remaining) \<Rightarrow>
        if r Qualification = [] \<and> remaining \<noteq> []
        then (case find (\<lambda>cell. 2 < length cell \<and> length cell < 100) remaining of
                None \<Rightarrow> (r, remaining)
              | Some cell \<Rightarrow> (r(Qualification := cell), remove1 cell remaining))
        else (r, remaining))"

definition association_fallback :: "faculty \<times> string list \<Rightarrow> faculty" where
  "association_fallback rr =
     (case rr of (r, remaining) \<Rightarrow>
        if r Association_type = [] \<and> remaining \<noteq> []
        then (case find (\<lambda>cell. 1 < length cell) remaining of
                None \<Rightarrow> r
              | Some cell \<Rightarrow> r(Association_type := cell))
        else r)"

definition fallback :: "string list \<Rightarrow> faculty \<Rightarrow> faculty" where
  "fallback row r =
     association_fallback
       (qualification_fallback (experience_fallback (r, remaining_cells row r)))"

text \<open>
  The body of \<open>create_enhanced_record_with_years\<close>, inside its \<open>try\<close>. The argument \<open>row\<close> is
  a list of texts, or \<open>None\<close>, the object without a length. The dictionary is built first:
  \<open>str(serial_num)\<close> raises for a number of too many digits, then \<open>len(row)\<close> raises for
  \<open>None\<close>. With a list of texts and a serial number that has been converted, no later step
  raises: every index is below \<open>len(row)\<close>, \<open>str\<close> of a text is the text, the two utility
  functions have handlers of their own, and \<open>float\<close> is applied to a text its pattern has
  matched. The body returns the record, or \<open>None\<close> when the record has no name. (The
  text that \<open>str\<close> returns is \<open>str_int serial_num\<close>, which the initial state stores.)
\<close>

definition record_construction ::
  "string list option \<Rightarrow> string \<Rightarrow> int \<Rightarrow> error + faculty option" where
  "record_construction row institution_name serial_num =
     (case py_str serial_num of
        Inl e \<Rightarrow> Inl e
      | Inr s_no \<Rightarrow>
          (case row of
             None \<Rightarrow> Inl TypeError
           | Some cells \<Rightarrow>
               (let r = fallback cells (the_record (scan cells institution_name serial_num))
                in Inr (if r Name \<noteq> [] then Some r else None))))"

text \<open>
  \<open>create_enhanced_record_with_years\<close>: the result of the body, and \<open>None\<close> from the handler
  \<open>except Exception: return None\<close> when the body raises.
\<close>

definition create_enhanced_record_with_years ::
  "string list option \<Rightarrow> string \<Rightarrow> int \<Rightarrow> faculty option" where
  "create_enhanced_record_with_years row institution_name serial_num =
     (case record_construction row institution_name serial_num of
        Inl e \<Rightarrow> None
      | Inr result \<Rightarrow> result)"

section \<open>Collecting and assembling the records of one institution\<close>

text \<open>
  \<open>extract_from_single_pdf\<close>, after the tables have been read: a document is the list of
  its pages, a page the list \<open>all_tables\<close> that the two extraction calls gave for it (empty
  when the page raised), a table a list of raw rows. The record of a row is added unless
  a record with the same lower-cased, stripped name and the same \<open>S No\<close> is there already.
\<close>

definition is_duplicate :: "faculty list \<Rightarrow> faculty \<Rightarrow> bool" where
  "is_duplicate records record =
     list_ex (\<lambda>existing. strip (lower (existing Name)) = strip (lower (record Name))
                 \<and> existing S_No = record S_No) records"

definition process_row :: "string \<Rightarrow> faculty list \<Rightarrow> string option list \<Rightarrow> faculty list" where
  "process_row institution_name records raw_row =
     (if raw_row = [] then records
      else let norm_row = map safe_normalize_cell raw_row in
        if \<not> is_potential_faculty_row norm_row then records
        else (case safe_extract_number (norm_row ! 0) of
                None \<Rightarrow> records
              | Some serial_num \<Rightarrow>
                  if serial_num = 0 \<or> 10000 < serial_num then records
                  else (case create_enhanced_record_with_years (Some norm_row)
                               institution_name serial_num of
                          None \<Rightarrow> records
                        | Some record \<Rightarrow>
                            if is_duplicate records record then records
                            else records @ [record])))"

definition process_table ::
  "string \<Rightarrow> faculty list \<Rightarrow> string option list list \<Rightarrow> faculty list" where
  "process_table institution_name records table =
     (if table = [] \<or> length table < 2 then records
      else foldl (process_row institution_name) records table)"

definition process_page ::
  "string \<Rightarrow> faculty list \<Rightarrow> string option list list list \<Rightarrow> faculty list" where
  "process_page institution_name records all_tables =
     foldl (process_table institution_name) records all_tables"

definition extract_from_single_pdf ::
  "string option list list list list \<Rightarrow> string \<Rightarrow> faculty list" where
  "extract_from_single_pdf pages institution_name =
     foldl (process_page institution_name) [] pages"

text \<open>
  \<open>df.drop_duplicates(subset=["Name"], keep="first")\<close>: a row goes when an earlier row has
  the same text in the column \<open>Name\<close>.
\<close>

fun drop_duplicates_from :: "string list \<Rightarrow> faculty list \<Rightarrow> faculty list" where
  "drop_duplicates_from seen [] = []"
| "drop_duplicates_from seen (r # rs) =
     (if r Name \<in> set seen then drop_duplicates_from seen rs
      else r # drop_duplicates_from (r Name # seen) rs)"

definition drop_duplicates_name :: "faculty list \<Rightarrow> faculty list" where
  "drop_duplicates_name records = drop_duplicates_from [] records"

text \<open>
  The column \<open>S No Numeric\<close>. On every record that the collection stage builds, \<open>S No\<close> is
  the decimal text of a serial number from 1 to 10000, which \<open>pd.to_numeric\<close> reads as that
  number; the definition is meant for such texts. Any other text gets the sentinel here,
  which is what the library does for a text that denotes no number; the numerals with a
  sign, a fraction, an exponent or white space around them, which \<open>pd.to_numeric\<close> reads
  as numbers too, are not modelled.
\<close>

definition s_no_numeric :: "string \<Rightarrow> int" where
  "s_no_numeric s = (if s \<noteq> [] \<and> list_all is_digit s then int_of_digits s else 999999)"

text \<open>
  \<open>df.sort_values(["S No Numeric"])\<close> sorts on one column with the default algorithm of the
  library, whose order among equal keys the source does not fix. Every result it may give
  has the same rows, in ascending order of the key.
\<close>

definition sort_values_result :: "faculty list \<Rightarrow> faculty list \<Rightarrow> bool" where
  "sort_values_result xs ys =
     (mset ys = mset xs \<and> sorted (map (\<lambda>r. s_no_numeric (r S_No)) ys))"

text \<open>
  \<open>save_individual_college_excel\<close>, up to the table it writes: the rows with their
  \<open>Final Serial\<close>. Nothing is written for an empty list of records.
\<close>

definition save_individual_college_excel :: "faculty list \<Rightarrow> (nat \<times> faculty) list \<Rightarrow> bool" where
  "save_individual_college_excel records out =
     (records \<noteq> []
      \<and> (\<exists>ys. sort_values_result (drop_duplicates_name records) ys
               \<and> out = zip [1..<Suc (length ys)] ys))"

section \<open>Notions used to state the properties\<close>

text \<open>A normalized cell is one the cell normalizer returns unchanged.\<close>

definition normalized :: "string \<Rightarrow> bool" where
  "normalized cell = (safe_normalize_cell (Some cell) = cell)"

text \<open>
  The row classifier in the words of its specification, for a row \<open>r\<close> of normalized
  cells. The leading number of a cell is the one its first run of digits denotes; a run of
  \<open>k\<close> alphabetic characters is \<open>k\<close> consecutive characters that are letters.
\<close>

definition leading_number :: "string \<Rightarrow> int" where
  "leading_number s = int_of_digits (first_digit_run s)"

definition has_alpha_run :: "nat \<Rightarrow> string \<Rightarrow> bool" where
  "has_alpha_run k s =
     list_ex (\<lambda>i. i + k \<le> length s \<and> list_all is_ascii_alpha (take k (drop i s)))
       [0..<Suc (length s)]"

definition spec_faculty_row :: "string list \<Rightarrow> bool" where
  "spec_faculty_row r =
     (2 \<le> length r
      \<and> r ! 0 \<noteq> [] \<and> length (r ! 0) \<le> 10 \<and> list_ex is_digit (r ! 0)
      \<and> 1 \<le> leading_number (r ! 0) \<and> leading_number (r ! 0) \<le> 9999
      \<and> r ! 1 \<noteq> [] \<and> 2 \<le> length (r ! 1) \<and> length (r ! 1) \<le> 100
      \<and> has_alpha_run 2 (r ! 1)
      \<and> list_all (\<lambda>t. \<not> contains t (lower (join_space (take 5 r)))) exclude_terms
      \<and> 3 \<le> length (filter (\<lambda>cell. cell \<noteq> []) r))"

text \<open>The key of the record that each flag of \<open>filled_fields\<close> stands for.\<close>

fun column_of :: "flag \<Rightarrow> column" where
  "column_of F_Age = Age"
| "column_of F_Gender = Gender"
| "column_of F_Designation = Designation"
| "column_of F_Qualification = Qualification"
| "column_of F_Experience = Experience_in_years"
| "column_of F_Working = Currently_working"
| "column_of F_JoiningDate = Joining_Date"
| "column_of F_LeavingDate = Leaving_Date"
| "column_of F_Association = Association_type"

text \<open>The state of the scan after the first \<open>k\<close> cells of \<open>row[2:]\<close>.\<close>

definition scan_prefix :: "string list \<Rightarrow> string \<Rightarrow> int \<Rightarrow> nat \<Rightarrow> scan_state" where
  "scan_prefix row institution_name serial_num k =
     foldl scan_cell (initial_state row institution_name serial_num) (take k (drop 2 row))"

text \<open>A text that reads \<open>nan\<close> or \<open>none\<close> when lower-cased, a cell whose stripped text does,
  and a row with every such cell from index 2 on emptied.\<close>

definition nan_none :: "string \<Rightarrow> bool" where
  "nan_none v = (lower v \<in> set [''nan'', ''none''])"

definition is_nan_none :: "string \<Rightarrow> bool" where
  "is_nan_none cell = nan_none (strip cell)"

definition blank_nan_none :: "string list \<Rightarrow> string list" where
  "blank_nan_none row =
     take 2 row @ map (\<lambda>cell. if is_nan_none cell then [] else cell) (drop 2 row)"

definition inferred_columns :: "column list" where
  "inferred_columns =
     [Age, Designation, Gender, Qualification, Experience_in_years, Currently_working,
      Joining_Date, Leaving_Date, Association_type]"

text \<open>The row of the worked example of the specification, and a row with a date-shaped
  cell before any cell that speaks of experience.\<close>

definition jane_row :: "string list" where
  "jane_row =
     [''3'', ''Jane Smith'', ''34'', ''Associate Professor'', ''F'', ''M.Tech'',
      ''48 months'', ''Yes'', ''12/2019'', '''', ''Regular'']"


text \<open>A row with cells that read nan and none, a row whose name cell is blank, and a
  document of one page and one table whose two rows carry the same name in different
  letter case.\<close>

definition nan_row :: "string list" where
  "nan_row = [''7'', ''A B'', ''nan'', ''None'', ''M'']"

definition nameless_row :: "string list" where
  "nameless_row = [''3'', ''  '', ''34'', ''Professor'']"



definition john_same_serial_pages :: "string option list list list list" where
  "john_same_serial_pages =
     [[[[Some ''1'', Some ''John Doe'', Some ''45''],
        [Some ''1'', Some ''JOHN DOE'', Some ''50'']]]]"

text \<open>A serial number of 4301 digits, one more than \<open>str\<close> converts.\<close>

definition long_serial :: int where
  "long_serial = 10 ^ 4300"


text \<open>
  Invariants of the scan: a flag is set exactly when the key it stands for holds a text,
  and no key of an inferred field holds a text that reads \<open>nan\<close> or \<open>none\<close>. The
  collection stage compares records by the pair \<open>dup_key\<close>.
\<close>

definition flags_agree :: "scan_state \<Rightarrow> bool" where
  "flags_agree st = (\<forall>fl. filled_fields st fl = (the_record st (column_of fl) \<noteq> []))"

definition no_nan :: "faculty \<Rightarrow> bool" where
  "no_nan r = (\<forall>fl. \<not> nan_none (r (column_of fl)))"


section \<open>Stripping and collapsing white space\<close>

lemma dropWhile_hd_not: "dropWhile P xs \<noteq> [] \<Longrightarrow> \<not> P (hd (dropWhile P xs))"
  by (metis hd_dropWhile)

text \<open>A stripped text neither begins nor ends with white space, and only such texts are
  left alone by \<open>strip\<close>.\<close>

lemma strip_ends:
  "strip x = [] \<or> (\<not> is_space (hd (strip x)) \<and> \<not> is_space (last (strip x)))"
proof (cases "strip x = []")
  case True
  then show ?thesis by simp
next
  case False
  define y where "y = dropWhile is_space x"
  define z where "z = dropWhile is_space (rev y)"
  have sz: "strip x = rev z" by (simp add: strip_def y_def z_def)
  with False have zne: "z \<noteq> []" by simp
  then have hz: "\<not> is_space (hd z)" unfolding z_def by (rule dropWhile_hd_not)
  have yne: "y \<noteq> []" using zne by (auto simp: z_def)
  have hy: "\<not> is_space (hd y)" using yne unfolding y_def by (rule dropWhile_hd_not)
  obtain p where "rev y = p @ z" by (metis z_def takeWhile_dropWhile_id)
  then have "last (rev y) = last z" using zne by simp
  then have "last z = hd y" using yne by (simp add: last_rev)
  then have "hd (rev z) = hd y" using zne by (simp add: hd_rev)
  moreover have "last (rev z) = hd z" using zne by (simp add: last_rev)
  ultimately show ?thesis using hy hz sz by simp
qed

lemma strip_id:
  assumes "u = [] \<or> (\<not> is_space (hd u) \<and> \<not> is_space (last u))"
  shows "strip u = u"
proof (cases "u = []")
  case True
  then show ?thesis by (simp add: strip_def)
next
  case False
  with assms have h: "\<not> is_space (hd u)" and l: "\<not> is_space (last u)" by auto
  have "dropWhile is_space u = u" using False h by (cases u) auto
  moreover have "dropWhile is_space (rev u) = rev u"
    using False l by (cases "rev u") (auto simp: last_rev[symmetric] hd_rev)
  ultimately show ?thesis by (simp add: strip_def)
qed

lemma sub_spaces_eq_Nil [simp]: "(sub_spaces t = []) = (t = [])"
  by (cases t) auto

lemma sub_spaces_hd: "t \<noteq> [] \<Longrightarrow> \<not> is_space (hd t) \<Longrightarrow> hd (sub_spaces t) = hd t"
  by (cases t) auto

lemma sub_spaces_last:
  "t \<noteq> [] \<Longrightarrow> \<not> is_space (last t) \<Longrightarrow> \<not> is_space (last (sub_spaces t))"
proof (induction t rule: sub_spaces.induct)
  case 1
  then show ?case by simp
next
  case (2 c cs)
  show ?case
  proof (cases "is_space c")
    case True
    let ?u = "dropWhile is_space cs"
    have une: "?u \<noteq> []"
    proof
      assume e: "?u = []"
      then have "\<forall>x\<in>set cs. is_space x" by (simp add: dropWhile_eq_Nil_conv)
      then have "is_space (last (c # cs))" using True by (cases cs) auto
      with "2.prems" show False by simp
    qed
    obtain p where "cs = p @ ?u" by (metis takeWhile_dropWhile_id)
    then have "last cs = last ?u" using une by (metis last_appendR)
    moreover have "cs \<noteq> []" using une by auto
    ultimately have "\<not> is_space (last ?u)" using "2.prems"(2) by simp
    then have "\<not> is_space (last (sub_spaces ?u))" using "2.IH"(1)[OF True une] by simp
    moreover have "sub_spaces (c # cs) = CHR '' '' # sub_spaces ?u" using True by simp
    moreover have "sub_spaces ?u \<noteq> []" using une by (simp del: dropWhile_eq_Nil_conv)
    ultimately show ?thesis by (metis last.simps)
  next
    case False
    show ?thesis
    proof (cases "cs = []")
      case True
      then show ?thesis using False by simp
    next
      case ne: False
      then have "\<not> is_space (last cs)" using "2.prems"(2) by simp
      then have "\<not> is_space (last (sub_spaces cs))" using "2.IH"(2)[OF False ne] by simp
      moreover have "sub_spaces (c # cs) = c # sub_spaces cs" using False by simp
      moreover have "sub_spaces cs \<noteq> []" using ne by simp
      ultimately show ?thesis by (metis last.simps)
    qed
  qed
qed

lemma sub_spaces_only_blank: "c \<in> set (sub_spaces t) \<Longrightarrow> is_space c \<Longrightarrow> c = CHR '' ''"
  by (induction t rule: sub_spaces.induct) (auto split: if_splits)

lemma dropWhile_sub_spaces:
  "u = [] \<or> \<not> is_space (hd u) \<Longrightarrow> dropWhile is_space (sub_spaces u) = sub_spaces u"
  by (cases u) auto

lemma sub_spaces_idem: "sub_spaces (sub_spaces t) = sub_spaces t"
proof (induction t rule: sub_spaces.induct)
  case 1
  then show ?case by simp
next
  case (2 c cs)
  show ?case
  proof (cases "is_space c")
    case True
    let ?u = "dropWhile is_space cs"
    have "?u = [] \<or> \<not> is_space (hd ?u)" using dropWhile_hd_not by blast
    then have "dropWhile is_space (sub_spaces ?u) = sub_spaces ?u"
      by (rule dropWhile_sub_spaces)
    moreover have "is_space (CHR '' '')" by (simp add: is_space_def code_def)
    ultimately show ?thesis using True "2.IH"(1)[OF True] by simp
  next
    case False
    with "2.IH"(2)[OF False] show ?thesis by simp
  qed
qed

lemma replace_char_absent: "a \<notin> set s \<Longrightarrow> replace_char a b s = s"
  by (induction s) (auto simp: replace_char_def)

text \<open>What the normalizer returns is empty or has no white space at either end.\<close>

lemma normalize_ends:
  "safe_normalize_cell x = []
   \<or> (\<not> is_space (hd (safe_normalize_cell x)) \<and> \<not> is_space (last (safe_normalize_cell x)))"
proof (cases x)
  case None
  then show ?thesis by (simp add: safe_normalize_cell_def)
next
  case (Some y)
  define t where
    "t = strip (replace_char (CHR 0x0A) (CHR '' '') (replace_char (CHR 0x0D) (CHR '' '') y))"
  have te: "t = [] \<or> (\<not> is_space (hd t) \<and> \<not> is_space (last t))"
    unfolding t_def by (rule strip_ends)
  have "safe_normalize_cell x = sub_spaces t"
    by (simp add: Some safe_normalize_cell_def t_def)
  then show ?thesis using te by (auto simp: sub_spaces_hd sub_spaces_last)
qed

section \<open>The cell normalizer is idempotent\<close>

text \<open>
  Claim C7: the cell normalizer is idempotent. For every raw cell \<open>x\<close>, null included,
  normalizing the result of \<open>safe_normalize_cell x\<close> again gives
  \<open>safe_normalize_cell x\<close>.
\<close>

theorem safe_normalize_cell_idempotent:
  "safe_normalize_cell (Some (safe_normalize_cell x)) = safe_normalize_cell x"
proof -
  define s where "s = safe_normalize_cell x"
  have blank: "c \<in> set s \<Longrightarrow> is_space c \<Longrightarrow> c = CHR '' ''" for c
  proof (cases x)
    case None
    assume "c \<in> set s"
    then show ?thesis by (simp add: s_def None safe_normalize_cell_def)
  next
    case (Some y)
    assume "c \<in> set s" "is_space c"
    then show ?thesis
      by (auto simp: s_def Some safe_normalize_cell_def dest: sub_spaces_only_blank)
  qed
  have cr: "CHR 0x0D \<notin> set s"
  proof
    assume "CHR 0x0D \<in> set s"
    moreover have "is_space (CHR 0x0D)" by (simp add: is_space_def code_def)
    ultimately have "CHR 0x0D = CHR '' ''" by (rule blank)
    then show False by simp
  qed
  have lf: "CHR 0x0A \<notin> set s"
  proof
    assume "CHR 0x0A \<in> set s"
    moreover have "is_space (CHR 0x0A)" by (simp add: is_space_def code_def)
    ultimately have "CHR 0x0A = CHR '' ''" by (rule blank)
    then show False by simp
  qed
  have r: "replace_char (CHR 0x0A) (CHR '' '') (replace_char (CHR 0x0D) (CHR '' '') s) = s"
    using cr lf by (simp add: replace_char_absent)
  have se: "s = [] \<or> (\<not> is_space (hd s) \<and> \<not> is_space (last s))"
    unfolding s_def by (rule normalize_ends)
  have ss: "sub_spaces s = s"
  proof (cases x)
    case None
    then show ?thesis by (simp add: s_def safe_normalize_cell_def)
  next
    case (Some y)
    then show ?thesis by (simp add: s_def safe_normalize_cell_def sub_spaces_idem)
  qed
  have "safe_normalize_cell (Some s) = sub_spaces (strip s)"
    by (simp add: safe_normalize_cell_def r)
  also have "\<dots> = sub_spaces s" using se by (simp add: strip_id)
  also have "\<dots> = s" by (rule ss)
  finally show ?thesis by (simp add: s_def)
qed

theorem safe_normalize_cell_idempotent_witness:
  "safe_normalize_cell (Some ''  Dr.  A   B '') = ''Dr. A B''
   \<and> safe_normalize_cell (Some ''Dr. A B'') = ''Dr. A B''"
proof -
  have 1: "safe_normalize_cell (Some ''  Dr.  A   B '') = ''Dr. A B''" by code_simp
  from safe_normalize_cell_idempotent [of "Some ''  Dr.  A   B ''"]
  show ?thesis by (simp only: 1 simp_thms)
qed

section \<open>The row classifier and its specification\<close>

lemma normalized_strip: "normalized c \<Longrightarrow> strip c = c"
  using normalize_ends [of "Some c"] by (simp add: normalized_def strip_id)

text \<open>A search succeeds when the pattern matches at some position of the text.\<close>

lemma re_search_iff: "re_search ps s = (\<exists>i\<le>length s. matches_at ps 0 (drop i s))"
proof (induction s)
  case Nil
  then show ?case by simp
next
  case (Cons c cs)
  have "(\<exists>i\<le>length (c # cs). matches_at ps 0 (drop i (c # cs)))
        = (matches_at ps 0 (c # cs) \<or> (\<exists>i\<le>length cs. matches_at ps 0 (drop i cs)))"
  proof
    assume "\<exists>i\<le>length (c # cs). matches_at ps 0 (drop i (c # cs))"
    then obtain i where i: "i \<le> length (c # cs)" "matches_at ps 0 (drop i (c # cs))"
      by blast
    show "matches_at ps 0 (c # cs) \<or> (\<exists>i\<le>length cs. matches_at ps 0 (drop i cs))"
    proof (cases i)
      case 0
      then show ?thesis using i by simp
    next
      case (Suc j)
      then show ?thesis using i by auto
    qed
  next
    assume "matches_at ps 0 (c # cs) \<or> (\<exists>i\<le>length cs. matches_at ps 0 (drop i cs))"
    then show "\<exists>i\<le>length (c # cs). matches_at ps 0 (drop i (c # cs))"
    proof
      assume "matches_at ps 0 (c # cs)"
      then have "matches_at ps 0 (drop 0 (c # cs))" by simp
      then show ?thesis by blast
    next
      assume "\<exists>i\<le>length cs. matches_at ps 0 (drop i cs)"
      then obtain i where "i \<le> length cs" "matches_at ps 0 (drop i cs)" by blast
      then have "Suc i \<le> length (c # cs)" "matches_at ps 0 (drop (Suc i) (c # cs))"
        by simp_all
      then show ?thesis by blast
    qed
  qed
  with Cons show ?case by simp
qed

lemma matches_at_unbounded:
  "matches_at [(p, lo, None)] n s = (lo \<le> n + length (takeWhile p s))"
  by (induction s arbitrary: n) auto

lemma matches_at_done: "lo \<le> n \<Longrightarrow> matches_at [(p, lo, hi)] n s"
  by (cases s) auto

lemma matches_at_one:
  "matches_at [(p, Suc 0, Some (Suc 0))] 0 s = (s \<noteq> [] \<and> p (hd s))"
  by (cases s) (auto simp: matches_at_done)

lemma re_search_one: "re_search [rx_one p] s = list_ex p s"
  by (induction s) (simp_all add: rx_one_def matches_at_one del: matches_at.simps)

lemma takeWhile_two:
  "(2 \<le> length (takeWhile p u)) = (2 \<le> length u \<and> list_all p (take 2 u))"
proof (cases u)
  case Nil
  then show ?thesis by simp
next
  case (Cons a v)
  then show ?thesis by (cases v) auto
qed

lemma re_search_alpha_run:
  "re_search [rx_at_least 2 p] s
   = (\<exists>i\<le>length s. i + 2 \<le> length s \<and> list_all p (take 2 (drop i s)))"
  by (auto simp: re_search_iff rx_at_least_def matches_at_unbounded takeWhile_two)

lemma has_alpha_run_iff:
  "has_alpha_run k s
   = (\<exists>i\<le>length s. i + k \<le> length s \<and> list_all is_ascii_alpha (take k (drop i s)))"
proof -
  have "set [0..<Suc (length s)] = {i. i \<le> length s}" by auto
  then show ?thesis unfolding has_alpha_run_def list_ex_iff by blast
qed

lemma re_search_has_alpha_run:
  "re_search [rx_at_least 2 is_ascii_alpha] s = has_alpha_run 2 s"
  by (simp only: re_search_alpha_run has_alpha_run_iff)

lemma first_digit_run_Nil: "(first_digit_run s = []) = (\<not> list_ex is_digit s)"
proof -
  define d where "d = dropWhile (\<lambda>c. \<not> is_digit c) s"
  have "(takeWhile is_digit d = []) = (d = [])"
  proof (cases d)
    case Nil
    then show ?thesis by simp
  next
    case (Cons a v)
    then have "d \<noteq> []" by simp
    then have "\<not> \<not> is_digit (hd d)" unfolding d_def by (rule hd_dropWhile)
    then show ?thesis using Cons by simp
  qed
  moreover have "(d = []) = (\<forall>x\<in>set s. \<not> is_digit x)"
    unfolding d_def by (rule dropWhile_eq_Nil_conv)
  ultimately show ?thesis by (simp add: first_digit_run_def list_ex_iff d_def)
qed

lemma safe_extract_number_eq:
  "safe_extract_number s =
     (if list_ex is_digit s \<and> length (first_digit_run s) \<le> int_max_str_digits
      then Some (leading_number s) else None)"
proof (cases "list_ex is_digit s")
  case True
  then have "first_digit_run s \<noteq> []" by (simp add: first_digit_run_Nil)
  moreover have "s \<noteq> []" using True by auto
  ultimately show ?thesis using True
    by (auto simp: safe_extract_number_def leading_number_def py_int_def split: list.splits)
next
  case False
  then have "first_digit_run s = []" by (simp add: first_digit_run_Nil)
  then show ?thesis using False by (simp add: safe_extract_number_def)
qed

lemma length_first_digit_run: "length (first_digit_run s) \<le> length s"
proof -
  have "length (first_digit_run s) \<le> length (dropWhile (\<lambda>c. \<not> is_digit c) s)"
    unfolding first_digit_run_def by (rule length_takeWhile_le)
  also have "\<dots> \<le> length s" by (rule length_dropWhile_le)
  finally show ?thesis .
qed

text \<open>A text of at most ten characters is never refused for its number of digits.\<close>

lemma safe_extract_number_short:
  assumes "length s \<le> 10"
  shows "safe_extract_number s = (if list_ex is_digit s then Some (leading_number s) else None)"
proof -
  have "length (first_digit_run s) \<le> 10" using length_first_digit_run [of s] assms by simp
  then show ?thesis by (simp add: safe_extract_number_eq int_max_str_digits_def)
qed

lemma any_in_iff: "any_in ws s = (\<not> list_all (\<lambda>w. \<not> contains w s) ws)"
  by (simp add: any_in_def list_ex_iff list_all_iff)

text \<open>\<open>contains t s\<close> is the relation \<open>t in s\<close>: the text \<open>s\<close> has \<open>t\<close> as a contiguous piece.\<close>

lemma contains_iff: "contains t s = (\<exists>p q. s = p @ t @ q)"
proof (induction s)
  case Nil
  then show ?case by auto
next
  case (Cons c cs)
  have a: "starts_with t (c # cs) = (\<exists>q. c # cs = t @ q)"
    unfolding starts_with_def by (metis append_eq_conv_conj append_take_drop_id)
  have "(\<exists>p q. c # cs = p @ t @ q) = ((\<exists>q. c # cs = t @ q) \<or> (\<exists>p q. cs = p @ t @ q))"
  proof
    assume "\<exists>p q. c # cs = p @ t @ q"
    then obtain p q where pq: "c # cs = p @ t @ q" by blast
    show "(\<exists>q. c # cs = t @ q) \<or> (\<exists>p q. cs = p @ t @ q)"
    proof (cases p)
      case Nil
      then show ?thesis using pq by auto
    next
      case (Cons a p')
      then have "cs = p' @ t @ q" using pq by simp
      then show ?thesis by blast
    qed
  next
    assume "(\<exists>q. c # cs = t @ q) \<or> (\<exists>p q. cs = p @ t @ q)"
    then show "\<exists>p q. c # cs = p @ t @ q"
    proof
      assume "\<exists>q. c # cs = t @ q"
      then obtain q where "c # cs = [] @ t @ q" by auto
      then show ?thesis by blast
    next
      assume "\<exists>p q. cs = p @ t @ q"
      then obtain p q where "cs = p @ t @ q" by blast
      then have "c # cs = (c # p) @ t @ q" by simp
      then show ?thesis by blast
    qed
  qed
  with Cons a show ?case by simp
qed

text \<open>
  Claim C2: for every row \<open>r\<close> of normalized cells, \<open>is_potential_faculty_row r\<close> holds if
  and only if: \<open>r\<close> has at least 2 cells; cell 0 is non-empty, at most 10 characters long,
  contains a digit, and the number of its first run of digits lies in [1, 9999]; cell 1
  is non-empty, between 2 and 100 characters long, and contains a run of at least 2
  letters (of \<open>[a-zA-Z]\<close>); the lower-cased text of the first five cells joined by spaces
  contains none of the exclusion terms; and at least 3 cells of \<open>r\<close> are non-empty.
\<close>

theorem classifier_iff_spec:
  assumes "list_all normalized r"
  shows "is_potential_faculty_row r = spec_faculty_row r"
proof (cases "length r < 2")
  case True
  then show ?thesis by (auto simp: is_potential_faculty_row_def spec_faculty_row_def)
next
  case False
  then have "0 < length r" and "1 < length r" by auto
  then have n0: "normalized (r ! 0)" and n1: "normalized (r ! 1)"
    using assms by (simp_all add: list_all_length)
  have s0: "strip (r ! 0) = r ! 0" using n0 by (rule normalized_strip)
  have s1: "strip (r ! Suc 0) = r ! Suc 0" using n1 by (simp add: normalized_strip)
  have f: "filter (\<lambda>cell. strip cell \<noteq> []) r = filter (\<lambda>cell. cell \<noteq> []) r"
    using assms by (intro filter_cong) (auto simp: list_all_iff normalized_strip)
  have rne: "r \<noteq> []" using False by auto
  show ?thesis
    using False rne
    by (auto simp: is_potential_faculty_row_def spec_faculty_row_def s0 s1 f Let_def
        re_search_one re_search_has_alpha_run safe_extract_number_short any_in_iff)
qed

theorem classifier_iff_spec_witness:
  "list_all normalized jane_row \<and> spec_faculty_row jane_row
   \<and> is_potential_faculty_row jane_row"
proof -
  have 1: "list_all normalized jane_row" by code_simp
  have 2: "spec_faculty_row jane_row" by code_simp
  from classifier_iff_spec [OF 1] 2 have "is_potential_faculty_row jane_row" by simp
  with 1 2 show ?thesis by simp
qed

section \<open>The experience normalizer\<close>

text \<open>
  On a text without a digit the normalizer returns the text; a number from 1 to 11 is
  rendered as months; a multiple of 12 below \<open>12 * 2\<^sup>5\<^sup>3\<close>, whose quotient the double
  holds exactly, is rendered as whole years; and any other number below
  \<open>12 * 2\<^sup>4\<^sup>7\<close> is rendered with one decimal, the double being near enough to the
  quotient for the two to round alike.
\<close>

lemma bit_length_le: "n < 2 ^ k \<Longrightarrow> bit_length n \<le> k"
proof (induction k arbitrary: n)
  case 0
  then show ?case by (simp add: bit_length.simps)
next
  case (Suc k)
  show ?case
  proof (cases "n \<le> 0")
    case True
    then show ?thesis by (simp add: bit_length.simps)
  next
    case False
    have "n div 2 < 2 ^ k" using Suc.prems by auto
    then have "bit_length (n div 2) \<le> k" by (rule Suc.IH)
    then show ?thesis using False by (subst bit_length.simps) simp
  qed
qed

lemma round_multiple:
  assumes "k \<le> m"
  shows "round_half_even (12 * q * 2 ^ m) (12 * 2 ^ k) * 2 ^ k = q * 2 ^ m"
proof -
  have p: "(2::int) ^ m = 2 ^ k * 2 ^ (m - k)" using assms by (simp flip: power_add)
  have eq: "12 * q * 2 ^ m = (12 * 2 ^ k) * (q * 2 ^ (m - k))" by (simp add: p)
  have d: "(12 * q * 2 ^ m) div (12 * 2 ^ k) = q * 2 ^ (m - k)"
    unfolding eq by (rule nonzero_mult_div_cancel_left) simp
  have r: "(12 * q * 2 ^ m) mod (12 * 2 ^ k) = 0"
    unfolding eq by (rule mod_mult_self1_is_0)
  have "round_half_even (12 * q * 2 ^ m) (12 * 2 ^ k) = q * 2 ^ (m - k)"
    unfolding round_half_even_def d r by simp
  then show ?thesis by (simp add: p)
qed

lemma to_double_multiple:
  assumes "1 \<le> q" "q < 2 ^ 53"
  shows "to_double (12 * q) 12 = q * 2 ^ 52"
proof -
  have "bit_length q \<le> 53" using assms(2) by (rule bit_length_le)
  then have "bit_length q - 1 \<le> 52" by simp
  then have "round_half_even (12 * q * 2 ^ 52) (12 * 2 ^ (bit_length q - 1))
             * 2 ^ (bit_length q - 1) = q * 2 ^ 52"
    by (rule round_multiple)
  then show ?thesis by (simp add: to_double_def Let_def)
qed

lemma convert_no_digit: "\<not> list_ex is_digit d \<Longrightarrow> convert_months_to_years d = d"
  by (simp add: convert_months_to_years_def safe_extract_number_eq)

text \<open>A text whose first run of digits is longer than the interpreter converts is returned
  as it is, too.\<close>

lemma convert_long_run:
  "int_max_str_digits < length (first_digit_run d) \<Longrightarrow> convert_months_to_years d = d"
  by (simp add: convert_months_to_years_def safe_extract_number_eq)

lemma convert_months:
  assumes "safe_extract_number d = Some n" "1 \<le> n" "n < 12"
  shows "convert_months_to_years d = str_int n @ '' months''"
  using assms by (auto simp: convert_months_to_years_def safe_extract_number_def)

lemma convert_whole_years:
  assumes "safe_extract_number d = Some n" "12 \<le> n" "n mod 12 = 0" "n < 12 * 2 ^ 53"
  shows "convert_months_to_years d = str_int (n div 12) @ '' years''"
proof -
  define q where "q = n div 12"
  have n: "n = 12 * q" using assms(3) by (auto simp: q_def)
  have q: "1 \<le> q" "q < 2 ^ 53" using assms(2,4) n by auto
  have t: "to_double n 12 = q * 2 ^ 52" unfolding n using q by (rule to_double_multiple)
  have "q * 2 ^ 52 < (2::int) ^ 53 * 2 ^ 52" using q(2) by simp
  also have "\<dots> < 2 ^ 1076" by (simp flip: power_add)
  finally have "true_div_12 n = Some (q * 2 ^ 52)" by (simp add: true_div_12_def t Let_def)
  moreover have "d \<noteq> []" using assms(1) by (auto simp: safe_extract_number_def)
  ultimately show ?thesis using assms(1,2)
    by (simp add: convert_months_to_years_def is_whole_def int_of_double_def q_def)
qed

text \<open>Rounding to the nearest integer, ties to even: the error is at most a half, and an
  integer nearer than a half is the result.\<close>

lemma rne_cases:
  assumes "0 < b"
  shows "round_half_even a b = a div b \<and> 2 * (a mod b) \<le> b
       \<or> round_half_even a b = a div b + 1 \<and> b \<le> 2 * (a mod b)"
  by (auto simp: round_half_even_def Let_def)

lemma rne_bound:
  assumes "0 < b"
  shows "\<bar>2 * (round_half_even a b * b - a)\<bar> \<le> b"
proof -
  have a: "a = (a div b) * b + a mod b" by simp
  have r: "0 \<le> a mod b" "a mod b < b" using assms by simp_all
  from rne_cases [OF assms, of a] show ?thesis
  proof
    assume h: "round_half_even a b = a div b \<and> 2 * (a mod b) \<le> b"
    then have "round_half_even a b * b - a = - (a mod b)"
      using a by (metis add_diff_cancel_left' minus_diff_eq)
    then show ?thesis using h r by simp
  next
    assume h: "round_half_even a b = a div b + 1 \<and> b \<le> 2 * (a mod b)"
    then have "round_half_even a b * b - a = b - a mod b"
      using a by (simp add: algebra_simps)
    then show ?thesis using h r by simp
  qed
qed

lemma rne_unique:
  assumes "0 < b" "2 * \<bar>t * b - a\<bar> < b"
  shows "round_half_even a b = t"
proof -
  define q where "q = a div b"
  define r where "r = a mod b"
  have a: "a = q * b + r" by (simp add: q_def r_def)
  have r: "0 \<le> r" "r < b" using assms(1) by (simp_all add: r_def)
  have lo: "q \<le> t"
  proof (rule ccontr)
    assume "\<not> q \<le> t"
    then have "t \<le> q - 1" by simp
    then have "t * b \<le> (q - 1) * b" using assms(1) by (intro mult_right_mono) simp_all
    then have "t * b \<le> q * b - b" by (simp add: algebra_simps)
    then show False using assms(2) a r by simp
  qed
  have hi: "t \<le> q + 1"
  proof (rule ccontr)
    assume "\<not> t \<le> q + 1"
    then have "q + 2 \<le> t" by simp
    then have "(q + 2) * b \<le> t * b" using assms(1) by (intro mult_right_mono) simp_all
    then have "q * b + 2 * b \<le> t * b" by (simp add: algebra_simps)
    then show False using assms(2) a r by simp
  qed
  from lo hi have "t = q \<or> t = q + 1" by arith
  then show ?thesis
  proof
    assume t: "t = q"
    then have "2 * r < b" using assms(2) a r by simp
    then show ?thesis by (simp add: round_half_even_def Let_def t q_def r_def)
  next
    assume t: "t = q + 1"
    then have "t * b - a = b - r" using a by (simp add: algebra_simps)
    then have "b < 2 * r" using assms(2) r by simp
    then show ?thesis by (simp add: round_half_even_def Let_def t q_def r_def)
  qed
qed

lemma rne_exact: "0 < b \<Longrightarrow> round_half_even (t * b) b = t"
  by (rule rne_unique) simp_all

lemma rne_scale:
  assumes "0 < c"
  shows "round_half_even (a * c) (b * c) = round_half_even a b"
proof -
  have d: "(a * c) div (b * c) = a div b" using assms by simp
  have m: "(a * c) mod (b * c) = (a mod b) * c" by (rule mult_mod_left [symmetric])
  have 1: "(2 * ((a mod b) * c) < b * c) = (2 * (a mod b) < b)"
    using assms by (metis mult.assoc mult_less_cancel_right_pos)
  have 2: "(2 * ((a mod b) * c) = b * c) = (2 * (a mod b) = b)"
    using assms by (metis less_irrefl mult.assoc mult_cancel_right)
  show ?thesis unfolding round_half_even_def d m Let_def 1 2 ..
qed


lemma to_double_shape:
  assumes "12 \<le> n" "n < 12 * 2 ^ 47"
  shows "\<exists>k m. k \<le> 46 \<and> m = round_half_even (n * 2 ^ 52) (12 * 2 ^ k)
               \<and> to_double n 12 = m * 2 ^ k"
proof -
  have "n div 12 < 2 ^ 47" using assms(2) by simp
  then have "bit_length (n div 12) \<le> 47" by (rule bit_length_le)
  then have "bit_length (n div 12) - 1 \<le> 46" by simp
  then show ?thesis by (auto simp: to_double_def Let_def)
qed

lemma to_double_near:
  assumes "12 \<le> n" "n < 12 * 2 ^ 47"
  shows "\<bar>12 * to_double n 12 - n * 2 ^ 52\<bar> \<le> 6 * 2 ^ 46"
proof -
  from to_double_shape [OF assms] obtain k m where k: "k \<le> 46"
    and m: "m = round_half_even (n * 2 ^ 52) (12 * 2 ^ k)"
    and x: "to_double n 12 = m * 2 ^ k" by blast
  have "\<bar>2 * (m * (12 * 2 ^ k) - n * 2 ^ 52)\<bar> \<le> 12 * (2::int) ^ k"
    unfolding m by (rule rne_bound) simp
  moreover have "(2::int) ^ k \<le> 2 ^ 46" using k by (intro power_increasing) simp_all
  moreover have "12 * to_double n 12 = m * (12 * 2 ^ k)" by (simp add: x)
  ultimately show ?thesis by simp
qed

lemma to_double_third:
  assumes "12 \<le> n" "n < 12 * 2 ^ 47" "n = 3 * j"
  shows "to_double n 12 = j * 2 ^ 50"
proof -
  from to_double_shape [OF assms(1,2)] obtain k m where k: "k \<le> 46"
    and m: "m = round_half_even (n * 2 ^ 52) (12 * 2 ^ k)"
    and x: "to_double n 12 = m * 2 ^ k" by blast
  have p: "(2::int) ^ 50 = 2 ^ (50 - k) * 2 ^ k" using k by (simp flip: power_add)
  have "(2::int) ^ 52 = 4 * 2 ^ 50" by simp
  then have e: "n * 2 ^ 52 = (j * 2 ^ (50 - k)) * (12 * 2 ^ k)"
    unfolding assms(3) p by simp
  have "round_half_even ((j * 2 ^ (50 - k)) * (12 * 2 ^ k)) (12 * 2 ^ k) = j * 2 ^ (50 - k)"
    by (rule rne_exact) simp
  then have "m = j * 2 ^ (50 - k)" unfolding m e .
  then have "m * 2 ^ k = j * (2 ^ (50 - k) * 2 ^ k)" by (simp only: mult.assoc)
  then show ?thesis unfolding x by (simp only: p [symmetric])
qed


lemma to_double_not_whole:
  assumes "12 \<le> n" "n < 12 * 2 ^ 47" "n mod 12 \<noteq> 0"
  shows "\<not> is_whole (to_double n 12)"
proof
  assume "is_whole (to_double n 12)"
  then have "(2::int) ^ 52 dvd to_double n 12"
    unfolding is_whole_def by (simp only: mod_eq_0_iff_dvd)
  then obtain w where w: "to_double n 12 = w * 2 ^ 52"
    by (auto elim: dvdE simp: mult.commute)
  from to_double_near [OF assms(1,2)]
  have "\<bar>(12 * w - n) * 2 ^ 52\<bar> \<le> 6 * 2 ^ 46" unfolding w by (simp add: algebra_simps)
  then have "12 * w - n = 0" by simp
  then show False using assms(3) by presburger
qed

lemma format_exact:
  assumes "12 \<le> n" "n < 12 * 2 ^ 47"
  shows "round_half_even (to_double n 12 * 10) (2 ^ 52) = round_half_even (10 * n) 12"
proof (cases "n mod 3 = 0")
  case True
  then have "3 dvd n" by (simp only: mod_eq_0_iff_dvd)
  then obtain j where j: "n = 3 * j" by (auto elim: dvdE)
  have x: "to_double n 12 = j * 2 ^ 50" using assms j by (rule to_double_third)
  have "round_half_even (to_double n 12 * 10) (2 ^ 52)
        = round_half_even ((j * 10) * 2 ^ 50) (4 * 2 ^ 50)" by (simp add: x)
  also have "\<dots> = round_half_even (j * 10) 4" by (rule rne_scale) simp
  also have "\<dots> = round_half_even ((j * 10) * 3) (4 * 3)" by (rule rne_scale [symmetric]) simp
  also have "\<dots> = round_half_even (10 * n) 12" by (simp add: j)
  finally show ?thesis .
next
  case False
  define T where "T = round_half_even (10 * n) 12"
  have "\<bar>2 * (T * 12 - 10 * n)\<bar> \<le> 12" unfolding T_def by (rule rne_bound) simp
  then have b: "\<bar>12 * T - 10 * n\<bar> \<le> 6" by simp
  have "12 * T - 10 * n \<noteq> 6" "12 * T - 10 * n \<noteq> - 6" using False by presburger+
  with b have d: "\<bar>12 * T - 10 * n\<bar> \<le> 5" by arith
  from to_double_near [OF assms]
  have e: "\<bar>12 * to_double n 12 - n * 2 ^ 52\<bar> \<le> 6 * 2 ^ 46" .
  have "2 * \<bar>T * 2 ^ 52 - to_double n 12 * 10\<bar> < 2 ^ 52" using d e by simp
  then have "round_half_even (to_double n 12 * 10) (2 ^ 52) = T"
    by (intro rne_unique) simp_all
  then show ?thesis by (simp add: T_def)
qed

text \<open>One decimal: the tenths nearest to \<open>n / 12\<close>, a tie going to the even digit.\<close>

lemma convert_decimal_years:
  assumes "safe_extract_number d = Some n" "12 \<le> n" "n mod 12 \<noteq> 0" "n < 12 * 2 ^ 47"
  shows "convert_months_to_years d
         = decimal (round_half_even (10 * n) 12 div 10) @ CHR ''.''
           # decimal (round_half_even (10 * n) 12 mod 10) @ '' years''"
proof -
  have nw: "\<not> is_whole (to_double n 12)" using assms(2,4,3) by (rule to_double_not_whole)
  have f: "round_half_even (to_double n 12 * 10) (2 ^ 52) = round_half_even (10 * n) 12"
    using assms(2,4) by (rule format_exact)
  then have f': "round_half_even (to_double n 12 * 10) 4503599627370496
                 = round_half_even (10 * n) 12" by simp
  have "\<bar>12 * to_double n 12 - n * 2 ^ 52\<bar> \<le> 6 * 2 ^ 46"
    using assms(2,4) by (rule to_double_near)
  then have "to_double n 12 < 2 ^ 1076" using assms(4) by simp
  then have t: "true_div_12 n = Some (to_double n 12)" by (simp add: true_div_12_def Let_def)
  have "d \<noteq> []" using assms(1) by (auto simp: safe_extract_number_def)
  then show ?thesis using assms(1,2) nw
    by (simp add: convert_months_to_years_def t format_1f_def f' Let_def)
qed

text \<open>
  Claim C3 says that a text whose first run of digits denotes a number \<open>n\<close> below 12 is
  rendered as \<open>n months\<close>. For the texts \<open>0\<close> and \<open>0 years\<close> the number is found (it is 0),
  yet the function returns the text unchanged, as it does when no number is found: the
  results are \<open>0\<close> and \<open>0 years\<close>, not \<open>0 months\<close>. The experience rule passes a cell such
  as \<open>0 years\<close> to the normalizer.
\<close>

theorem convert_months_to_years_zero:
  "safe_extract_number ''0'' = Some 0
   \<and> convert_months_to_years ''0'' = ''0''
   \<and> safe_extract_number ''0 years'' = Some 0
   \<and> convert_months_to_years ''0 years'' = ''0 years''
   \<and> experience_match ''0 years'' = Some ''0 years''
   \<and> str_int 0 @ '' months'' = ''0 months''"
  by code_simp

text \<open>
  Beyond the range of exact doubles the quotient loses its fraction: the number
  \<open>100000000000000001\<close> leaves the remainder 5 on division by 12, and the text is
  rendered as whole years.
\<close>

lemma convert_months_to_years_large:
  "safe_extract_number ''100000000000000001'' = Some 100000000000000001
   \<and> 100000000000000001 mod 12 = (5::int)
   \<and> convert_months_to_years ''100000000000000001'' = ''8333333333333333 years''"
  by code_simp

section \<open>The rules of the field-inference engine\<close>

lemma first_some_Cons:
  "first_some (x # xs) = (case x of None \<Rightarrow> first_some xs | Some a \<Rightarrow> Some a)"
  by (cases x) simp_all

lemmas rule_defs = age_rule_def gender_rule_def designation_rule_def experience_rule_def
  working_rule_def date_rule_def qualification_rule_def association_rule_def

text \<open>A rule that fires writes the key of its own flag, and that flag is not set.\<close>

lemma fired_target:
  "fired c st = Some (col, fl, v) \<Longrightarrow> col = column_of fl \<and> \<not> filled_fields st fl"
  by (auto simp: fired_def first_some_Cons rule_defs split: option.splits if_splits)

lemma column_of_inj: "column_of fl = column_of fl' \<Longrightarrow> fl = fl'"
  by (cases fl; cases fl') simp_all

lemma column_of_not_key:
  "column_of fl \<noteq> S_No" "column_of fl \<noteq> Name" "column_of fl \<noteq> Institution_name"
  "S_No \<noteq> column_of fl" "Name \<noteq> column_of fl" "Institution_name \<noteq> column_of fl"
  by (cases fl; simp)+

text \<open>One turn of the loop leaves the state alone or makes the one assignment of the rule
  that fired.\<close>

lemma scan_cell_cases:
  "scan_cell st c = st
   \<or> (\<exists>fl v. \<not> skipped (strip c) \<and> fired (strip c) st = Some (column_of fl, fl, v)
         \<and> \<not> filled_fields st fl
         \<and> scan_cell st c = st\<lparr>the_record := (the_record st)(column_of fl := v),
                                filled_fields := (filled_fields st)(fl := True)\<rparr>)"
proof (cases "skipped (strip c)")
  case True
  then show ?thesis by (simp add: scan_cell_def)
next
  case False
  show ?thesis
  proof (cases "fired (strip c) st")
    case None
    then show ?thesis using False by (simp add: scan_cell_def)
  next
    case (Some a)
    obtain col fl v where a: "a = (col, fl, v)" by (cases a)
    from Some a fired_target have "col = column_of fl" "\<not> filled_fields st fl" by blast+
    then show ?thesis using False Some a by (auto simp: scan_cell_def assign_def)
  qed
qed

lemma scan_cell_filled:
  assumes "filled_fields st fl"
  shows "filled_fields (scan_cell st c) fl"
    and "the_record (scan_cell st c) (column_of fl) = the_record st (column_of fl)"
  using scan_cell_cases [of st c] assms by (auto dest: column_of_inj)

lemma scan_cell_key:
  "the_record (scan_cell st c) S_No = the_record st S_No"
  "the_record (scan_cell st c) Name = the_record st Name"
  "the_record (scan_cell st c) Institution_name = the_record st Institution_name"
  using scan_cell_cases [of st c] by (auto simp: column_of_not_key)

lemma foldl_scan_filled:
  "filled_fields st fl \<Longrightarrow>
   filled_fields (foldl scan_cell st cs) fl
   \<and> the_record (foldl scan_cell st cs) (column_of fl) = the_record st (column_of fl)"
  by (induction cs arbitrary: st) (simp_all add: scan_cell_filled)

lemma foldl_scan_key:
  "the_record (foldl scan_cell st cs) Name = the_record st Name"
  by (induction cs arbitrary: st) (simp_all add: scan_cell_key)

subsection \<open>The texts that the rules store\<close>

lemma decimal_nonempty: "decimal n \<noteq> []"
  by (subst decimal.simps) simp

lemma digit_char_digit: "0 \<le> d \<Longrightarrow> d < 10 \<Longrightarrow> is_digit (digit_char d)"
proof -
  assume "0 \<le> d" "d < 10"
  then have "d = 0 \<or> d = 1 \<or> d = 2 \<or> d = 3 \<or> d = 4 \<or> d = 5 \<or> d = 6 \<or> d = 7
             \<or> d = 8 \<or> d = 9"
    by arith
  moreover have "is_digit (digit_char 0)" "is_digit (digit_char 1)" "is_digit (digit_char 2)"
    "is_digit (digit_char 3)" "is_digit (digit_char 4)" "is_digit (digit_char 5)"
    "is_digit (digit_char 6)" "is_digit (digit_char 7)" "is_digit (digit_char 8)"
    "is_digit (digit_char 9)" by code_simp+
  ultimately show ?thesis by auto
qed

lemma decimal_last_digit: "0 \<le> n \<Longrightarrow> is_digit (last (decimal n))"
  by (subst decimal.simps) (simp add: digit_char_digit)

lemma nan_none_Nil [simp]: "\<not> nan_none []"
  by (simp add: nan_none_def lower_def)

lemma lower_last_not:
  assumes "v \<noteq> []" "lower_char (last v) \<noteq> CHR ''n''" "lower_char (last v) \<noteq> CHR ''e''"
  shows "\<not> nan_none v"
proof
  assume "nan_none v"
  then have "lower v = ''nan'' \<or> lower v = ''none''" by (simp add: nan_none_def)
  then have "last (lower v) = CHR ''n'' \<or> last (lower v) = CHR ''e''" by auto
  moreover have "last (lower v) = lower_char (last v)"
    using assms(1) by (simp add: lower_def last_map)
  ultimately show False using assms by simp
qed

lemma digit_not_ne: "is_digit c \<Longrightarrow> lower_char c \<noteq> CHR ''n'' \<and> lower_char c \<noteq> CHR ''e''"
  by (auto simp: is_digit_def lower_char_def code_def)

lemma decimal_not_nan: "0 \<le> n \<Longrightarrow> \<not> nan_none (decimal n)"
  using decimal_last_digit [of n] digit_not_ne lower_last_not decimal_nonempty by blast

lemma s_not_ne: "lower_char (CHR ''s'') \<noteq> CHR ''n''" "lower_char (CHR ''s'') \<noteq> CHR ''e''"
  by (simp_all add: lower_char_def code_def)

lemma months_years_not_nan: "\<not> nan_none (x @ '' months'')" "\<not> nan_none (x @ '' years'')"
  by (rule lower_last_not; simp add: s_not_ne)+

text \<open>The experience normalizer returns the text itself or a text that ends in \<open>months\<close> or
  \<open>years\<close>.\<close>

lemma convert_cases:
  "convert_months_to_years c = c
   \<or> (\<exists>x. convert_months_to_years c = x @ '' months'')
   \<or> (\<exists>x. convert_months_to_years c = x @ '' years'')"
  by (auto simp: convert_months_to_years_def split: option.splits)

lemma convert_nonempty: "c \<noteq> [] \<Longrightarrow> convert_months_to_years c \<noteq> []"
  using convert_cases [of c] by auto

lemma convert_not_nan: "\<not> nan_none c \<Longrightarrow> \<not> nan_none (convert_months_to_years c)"
  using convert_cases [of c] months_years_not_nan by auto

lemma decimal_years_cases: "decimal_years c = Some v \<Longrightarrow> \<exists>x. v = x @ '' years''"
  by (auto simp: decimal_years_def split: option.splits if_splits)

lemma age_match_value: "age_match c = Some v \<Longrightarrow> v \<noteq> [] \<and> \<not> nan_none v"
  by (auto simp: age_match_def str_int_def decimal_nonempty decimal_not_nan
      split: option.splits if_splits)

lemma MF_not_nan: "\<not> nan_none ''M''" "\<not> nan_none ''F''"
  by (simp_all add: nan_none_def lower_def)

lemma gender_match_value:
  "gender_match c = Some v \<Longrightarrow> c \<noteq> [] \<Longrightarrow> \<not> nan_none c \<Longrightarrow> v \<noteq> [] \<and> \<not> nan_none v"
  by (auto simp: gender_match_def MF_not_nan split: if_splits)

lemma experience_match_value:
  "experience_match c = Some v \<Longrightarrow> c \<noteq> [] \<Longrightarrow> \<not> nan_none c \<Longrightarrow> v \<noteq> [] \<and> \<not> nan_none v"
  using months_years_not_nan(2)
  by (auto simp: experience_match_def Let_def convert_nonempty convert_not_nan
      split: if_splits dest!: decimal_years_cases)

lemma fired_value:
  assumes "fired c st = Some (col, fl, v)" "c \<noteq> []" "\<not> nan_none c"
  shows "v \<noteq> [] \<and> \<not> nan_none v"
  using assms
  by (auto simp: fired_def first_some_Cons rule_defs
      split: option.splits if_splits
      dest: age_match_value gender_match_value experience_match_value)

lemma skipped_iff: "skipped c = (c = [] \<or> nan_none c)"
  by (auto simp: skipped_def nan_none_def lower_def)

subsection \<open>Invariants of the scan\<close>

lemma flags_agree_initial: "flags_agree (initial_state row inst n)"
  by (simp add: flags_agree_def initial_state_def column_of_not_key)

lemma flags_agree_scan_cell: "flags_agree st \<Longrightarrow> flags_agree (scan_cell st c)"
proof -
  assume a: "flags_agree st"
  from scan_cell_cases [of st c] show ?thesis
  proof
    assume "scan_cell st c = st"
    with a show ?thesis by simp
  next
    assume "\<exists>fl v. \<not> skipped (strip c) \<and> fired (strip c) st = Some (column_of fl, fl, v)
         \<and> \<not> filled_fields st fl
         \<and> scan_cell st c = st\<lparr>the_record := (the_record st)(column_of fl := v),
                                filled_fields := (filled_fields st)(fl := True)\<rparr>"
    then obtain fl v where h: "\<not> skipped (strip c)"
      "fired (strip c) st = Some (column_of fl, fl, v)"
      "scan_cell st c = st\<lparr>the_record := (the_record st)(column_of fl := v),
                                filled_fields := (filled_fields st)(fl := True)\<rparr>" by blast
    from h(1,2) have "v \<noteq> []" using fired_value by (auto simp: skipped_iff)
    then show ?thesis using a h(3) by (auto simp: flags_agree_def dest: column_of_inj)
  qed
qed

lemma flags_agree_foldl: "flags_agree st \<Longrightarrow> flags_agree (foldl scan_cell st cs)"
  by (induction cs arbitrary: st) (simp_all add: flags_agree_scan_cell)

lemma flags_agree_prefix: "flags_agree (scan_prefix row inst n k)"
  by (simp add: scan_prefix_def flags_agree_foldl flags_agree_initial)

lemma scan_prefix_mono:
  assumes "k \<le> j" "filled_fields (scan_prefix row inst n k) fl"
  shows "filled_fields (scan_prefix row inst n j) fl
         \<and> the_record (scan_prefix row inst n j) (column_of fl)
             = the_record (scan_prefix row inst n k) (column_of fl)"
proof -
  let ?cs = "drop 2 row"
  have "take j ?cs = take k ?cs @ take (j - k) (drop k ?cs)"
    using assms(1) by (metis le_add_diff_inverse take_add)
  then have "scan_prefix row inst n j
             = foldl scan_cell (scan_prefix row inst n k) (take (j - k) (drop k ?cs))"
    by (simp add: scan_prefix_def)
  then show ?thesis using foldl_scan_filled [OF assms(2)] by simp
qed

lemma scan_is_prefix: "scan row inst n = scan_prefix row inst n (length row)"
  by (simp add: scan_def scan_prefix_def)

lemma no_nan_initial: "no_nan (the_record (initial_state row inst n))"
  by (simp add: no_nan_def initial_state_def column_of_not_key)

lemma no_nan_scan_cell: "no_nan (the_record st) \<Longrightarrow> no_nan (the_record (scan_cell st c))"
proof -
  assume a: "no_nan (the_record st)"
  from scan_cell_cases [of st c] show ?thesis
  proof
    assume "scan_cell st c = st"
    with a show ?thesis by simp
  next
    assume "\<exists>fl v. \<not> skipped (strip c) \<and> fired (strip c) st = Some (column_of fl, fl, v)
         \<and> \<not> filled_fields st fl
         \<and> scan_cell st c = st\<lparr>the_record := (the_record st)(column_of fl := v),
                                filled_fields := (filled_fields st)(fl := True)\<rparr>"
    then obtain fl v where h: "\<not> skipped (strip c)"
      "fired (strip c) st = Some (column_of fl, fl, v)"
      "scan_cell st c = st\<lparr>the_record := (the_record st)(column_of fl := v),
                                filled_fields := (filled_fields st)(fl := True)\<rparr>" by blast
    from h(1,2) have "\<not> nan_none v" using fired_value by (auto simp: skipped_iff)
    then show ?thesis using a h(3) by (auto simp: no_nan_def)
  qed
qed

lemma no_nan_foldl: "no_nan (the_record st) \<Longrightarrow> no_nan (the_record (foldl scan_cell st cs))"
  by (induction cs arbitrary: st) (simp_all add: no_nan_scan_cell)

lemma no_nan_scan: "no_nan (the_record (scan row inst n))"
  by (simp add: scan_def no_nan_foldl no_nan_initial)

subsection \<open>The fallback passes\<close>

lemma experience_fallback_keeps:
  "r col \<noteq> [] \<Longrightarrow> fst (experience_fallback (r, rem)) col = r col"
  by (auto simp: experience_fallback_def split: option.splits)

lemma qualification_fallback_keeps:
  "r col \<noteq> [] \<Longrightarrow> fst (qualification_fallback (r, rem)) col = r col"
  by (auto simp: qualification_fallback_def split: option.splits)

lemma association_fallback_keeps:
  "r col \<noteq> [] \<Longrightarrow> association_fallback (r, rem) col = r col"
  by (auto simp: association_fallback_def split: option.splits)

lemma fallback_keeps: "r col \<noteq> [] \<Longrightarrow> fallback row r col = r col"
proof -
  assume a: "r col \<noteq> []"
  obtain r1 m1 where e: "experience_fallback (r, remaining_cells row r) = (r1, m1)"
    by fastforce
  obtain r2 m2 where q: "qualification_fallback (r1, m1) = (r2, m2)" by fastforce
  have 1: "r1 col = r col"
    using experience_fallback_keeps [of r col "remaining_cells row r"] a e by simp
  then have 2: "r2 col = r1 col"
    using qualification_fallback_keeps [of r1 col m1] q a by simp
  then have "association_fallback (r2, m2) col = r2 col"
    using association_fallback_keeps [of r2 col m2] 1 a by simp
  then show ?thesis using 1 2 e q by (simp add: fallback_def)
qed

lemma fallback_Name: "fallback row r Name = r Name"
  by (auto simp: fallback_def experience_fallback_def qualification_fallback_def
      association_fallback_def split: option.splits)

lemma remaining_cells_not_nan: "c \<in> set (remaining_cells row r) \<Longrightarrow> \<not> nan_none c"
  by (auto simp: remaining_cells_def nan_none_def)

lemma find_in_set: "find P xs = Some x \<Longrightarrow> x \<in> set xs"
  by (induction xs) (auto split: if_splits)

lemma experience_fallback_no_nan:
  assumes "no_nan r" "\<forall>c\<in>set rem. \<not> nan_none c"
  shows "no_nan (fst (experience_fallback (r, rem)))
         \<and> (\<forall>c\<in>set (snd (experience_fallback (r, rem))). \<not> nan_none c)"
  using assms
  by (auto simp: experience_fallback_def no_nan_def convert_not_nan
      split: option.splits dest: find_in_set notin_set_remove1)

lemma qualification_fallback_no_nan:
  assumes "no_nan r" "\<forall>c\<in>set rem. \<not> nan_none c"
  shows "no_nan (fst (qualification_fallback (r, rem)))
         \<and> (\<forall>c\<in>set (snd (qualification_fallback (r, rem))). \<not> nan_none c)"
  using assms
  by (auto simp: qualification_fallback_def no_nan_def
      split: option.splits dest: find_in_set notin_set_remove1)

lemma association_fallback_no_nan:
  assumes "no_nan r" "\<forall>c\<in>set rem. \<not> nan_none c"
  shows "no_nan (association_fallback (r, rem))"
  using assms
  by (auto simp: association_fallback_def no_nan_def split: option.splits dest: find_in_set)

lemma fallback_no_nan: "no_nan r \<Longrightarrow> no_nan (fallback row r)"
proof -
  assume a: "no_nan r"
  obtain r1 m1 where e: "experience_fallback (r, remaining_cells row r) = (r1, m1)"
    by fastforce
  obtain r2 m2 where q: "qualification_fallback (r1, m1) = (r2, m2)" by fastforce
  have "\<forall>c\<in>set (remaining_cells row r). \<not> nan_none c"
    using remaining_cells_not_nan by blast
  with a have 1: "no_nan r1 \<and> (\<forall>c\<in>set m1. \<not> nan_none c)"
    using experience_fallback_no_nan [of r "remaining_cells row r"] e by simp
  then have 2: "no_nan r2 \<and> (\<forall>c\<in>set m2. \<not> nan_none c)"
    using qualification_fallback_no_nan [of r1 m1] q by simp
  then have "no_nan (association_fallback (r2, m2))"
    using association_fallback_no_nan [of r2 m2] by simp
  then show ?thesis using e q by (simp add: fallback_def)
qed

lemma no_nan_inferred: "no_nan r = list_all (\<lambda>col. \<not> nan_none (r col)) inferred_columns"
proof
  assume a: "no_nan r"
  have "\<not> nan_none (r (column_of F_Age))" "\<not> nan_none (r (column_of F_Gender))"
    "\<not> nan_none (r (column_of F_Designation))" "\<not> nan_none (r (column_of F_Qualification))"
    "\<not> nan_none (r (column_of F_Experience))" "\<not> nan_none (r (column_of F_Working))"
    "\<not> nan_none (r (column_of F_JoiningDate))" "\<not> nan_none (r (column_of F_LeavingDate))"
    "\<not> nan_none (r (column_of F_Association))"
    using a unfolding no_nan_def by blast+
  then show "list_all (\<lambda>col. \<not> nan_none (r col)) inferred_columns"
    by (simp add: inferred_columns_def)
next
  assume a: "list_all (\<lambda>col. \<not> nan_none (r col)) inferred_columns"
  show "no_nan r" unfolding no_nan_def
  proof
    fix fl
    show "\<not> nan_none (r (column_of fl))"
      using a by (cases fl) (simp_all add: inferred_columns_def)
  qed
qed

subsection \<open>Emptying the cells that read nan or none\<close>

lemma scan_cell_Nil: "scan_cell st [] = st"
  by (simp add: scan_cell_def strip_def skipped_def)

lemma scan_cell_nan: "is_nan_none c \<Longrightarrow> scan_cell st c = st"
  by (auto simp: scan_cell_def is_nan_none_def nan_none_def skipped_def Let_def)

lemma foldl_scan_blank:
  "foldl scan_cell st (map (\<lambda>cell. if is_nan_none cell then [] else cell) cs)
   = foldl scan_cell st cs"
  by (induction cs arbitrary: st) (simp_all add: scan_cell_Nil scan_cell_nan)

lemma drop_blank:
  "drop 2 (blank_nan_none row)
   = map (\<lambda>cell. if is_nan_none cell then [] else cell) (drop 2 row)"
  by (cases "2 \<le> length row") (simp_all add: blank_nan_none_def min_def)

lemma length_blank: "length (blank_nan_none row) = length row"
  by (simp add: blank_nan_none_def)

lemma nth_blank: "Suc 0 < length row \<Longrightarrow> blank_nan_none row ! Suc 0 = row ! Suc 0"
  by (simp add: blank_nan_none_def nth_append)

lemma initial_blank: "initial_state (blank_nan_none row) inst n = initial_state row inst n"
  by (simp add: initial_state_def length_blank nth_blank)

lemma scan_blank: "scan (blank_nan_none row) inst n = scan row inst n"
  by (simp add: scan_def initial_blank drop_blank foldl_scan_blank)

lemma remaining_blank: "remaining_cells (blank_nan_none row) r = remaining_cells row r"
proof -
  have "filter P (map strip (map (\<lambda>cell. if is_nan_none cell then [] else cell) cs))
        = filter P (map strip cs)"
    if "\<And>c. is_nan_none c \<Longrightarrow> \<not> P (strip c)" "\<not> P []" for P and cs :: "string list"
    using that by (induction cs) (auto simp: strip_def)
  then show ?thesis
    by (simp add: remaining_cells_def drop_blank is_nan_none_def nan_none_def)
qed

section \<open>The body of record construction and its handler\<close>

text \<open>The body raises exactly when the serial number has more digits than \<open>str\<close> converts
  or the row is \<open>None\<close>; on a list of texts and any other serial number it returns.\<close>

lemma py_str_returns: "py_str n = Inr s \<Longrightarrow> s = str_int n"
  by (auto simp: py_str_def split: if_splits)

lemma record_construction_raises:
  "(record_construction row inst n = Inl e)
   = (if int_max_str_digits < length (decimal \<bar>n\<bar>) then e = ValueError
      else row = None \<and> e = TypeError)"
  by (auto simp: record_construction_def py_str_def Let_def split: option.splits)

lemma create_list:
  "create_enhanced_record_with_years (Some row) inst n
   = (if int_max_str_digits < length (decimal \<bar>n\<bar>) then None
      else if fallback row (the_record (scan row inst n)) Name \<noteq> []
           then Some (fallback row (the_record (scan row inst n))) else None)"
  by (simp add: create_enhanced_record_with_years_def record_construction_def py_str_def
      Let_def)

lemma create_result:
  "create_enhanced_record_with_years row inst n = Some r \<Longrightarrow>
   \<exists>cells. row = Some cells \<and> r = fallback cells (the_record (scan cells inst n))
     \<and> r Name \<noteq> []"
  by (cases row)
    (auto simp: create_enhanced_record_with_years_def record_construction_def py_str_def
      Let_def split: if_splits)

text \<open>A number from \<open>10\<^sup>k\<close> on has more than \<open>k\<close> digits.\<close>

lemma length_decimal:
  "10 ^ k \<le> n \<Longrightarrow> k < length (decimal n)"
proof (induction k arbitrary: n)
  case 0
  show ?case by (subst decimal.simps) simp
next
  case (Suc k)
  have p: "10 * 10 ^ k \<le> n" using Suc.prems by simp
  have "(10::int) = 10 * 1" by simp
  also have "\<dots> \<le> 10 * 10 ^ k" by (rule mult_left_mono) simp_all
  also have "\<dots> \<le> n" by (rule p)
  finally have n: "10 \<le> n" .
  have "(10 * 10 ^ k) div 10 \<le> n div 10" using p by (intro zdiv_mono1) simp_all
  then have "10 ^ k \<le> n div 10" by simp
  then have "k < length (decimal (n div 10))" by (rule Suc.IH)
  then show ?case using n by (subst decimal.simps) simp
qed

section \<open>The worked example\<close>

lemma jane_cells:
  "py_str 3 = Inr ''3''"
  "str_int 3 = ''3''"
  "strip ''Jane Smith'' = ''Jane Smith''"
  "strip ''34'' = ''34''" "skipped ''34'' = False" "age_match ''34'' = Some ''34''"
  "strip ''Associate Professor'' = ''Associate Professor''"
  "skipped ''Associate Professor'' = False"
  "gender_match ''Associate Professor'' = None"
  "designation_match ''Associate Professor'' = True"
  "strip ''F'' = ''F''" "skipped ''F'' = False" "gender_match ''F'' = Some ''F''"
  "strip ''M.Tech'' = ''M.Tech''" "skipped ''M.Tech'' = False"
  "experience_match ''M.Tech'' = None" "working_match ''M.Tech'' = False"
  "date_match ''M.Tech'' = False" "qualification_match ''M.Tech'' = True"
  "strip ''48 months'' = ''48 months''" "skipped ''48 months'' = False"
  "experience_match ''48 months'' = Some ''4 years''"
  "strip ''Yes'' = ''Yes''" "skipped ''Yes'' = False" "working_match ''Yes'' = True"
  "strip ''12/2019'' = ''12/2019''" "skipped ''12/2019'' = False"
  "date_match ''12/2019'' = True"
  "strip [] = []" "skipped [] = True"
  "strip ''Regular'' = ''Regular''" "skipped ''Regular'' = False"
  "date_match ''Regular'' = False" "association_shape ''Regular'' = True"
  by code_simp+

lemma jane_lower:
  "lower ''34'' = ''34''" "lower ''Associate Professor'' = ''associate professor''"
  "lower ''F'' = ''f''" "lower ''M.Tech'' = ''m.tech''" "lower ''48 months'' = ''48 months''"
  "lower ''Yes'' = ''yes''" "lower ''12/2019'' = ''12/2019''" "lower ''Regular'' = ''regular''"
  by code_simp+

lemmas engine_defs = create_enhanced_record_with_years_def record_construction_def
  scan_def initial_state_def
  scan_cell_def fired_def first_some_Cons rule_defs assign_def record_values_def
  fallback_def remaining_cells_def experience_fallback_def qualification_fallback_def
  association_fallback_def

text \<open>
  Claim C1, amended: for the classified row
  \<open>["3", "Jane Smith", "34", "Associate Professor", "F", "M.Tech", "48 months", "Yes",
  "12/2019", "", "Regular"]\<close>, the serial number 3 and any institution name \<open>inst\<close> other
  than \<open>Regular\<close>, \<open>create_enhanced_record_with_years\<close> returns a record with S No \<open>3\<close>,
  Name \<open>Jane Smith\<close>, Age \<open>34\<close>, Designation \<open>Associate Professor\<close>, Gender \<open>F\<close>,
  Qualification \<open>M.Tech\<close>, Experience \<open>4 years\<close>, working status \<open>Yes\<close>, Joining Date
  \<open>12/2019\<close>, an empty Leaving Date, Association type \<open>Regular\<close> and the institution name
  \<open>inst\<close>.
\<close>

theorem jane_record:
  assumes "inst \<noteq> ''Regular''"
  shows "\<exists>r. create_enhanced_record_with_years (Some jane_row) inst 3 = Some r
    \<and> r S_No = ''3'' \<and> r Name = ''Jane Smith'' \<and> r Age = ''34''
    \<and> r Designation = ''Associate Professor'' \<and> r Gender = ''F''
    \<and> r Qualification = ''M.Tech'' \<and> r Experience_in_years = ''4 years''
    \<and> r Currently_working = ''Yes'' \<and> r Joining_Date = ''12/2019''
    \<and> r Leaving_Date = [] \<and> r Association_type = ''Regular''
    \<and> r Institution_name = inst"
proof (cases "inst = ''48 months''")
  case True
  then show ?thesis
    by (simp add: engine_defs jane_row_def jane_cells jane_lower Let_def)
next
  case False
  with assms show ?thesis
    by (simp add: engine_defs jane_row_def jane_cells jane_lower Let_def)
qed

theorem jane_record_witness:
  "''Inst'' \<noteq> ''Regular''
   \<and> map_option (\<lambda>r. r Institution_name) (create_enhanced_record_with_years (Some jane_row) ''Inst'' 3)
       = Some ''Inst''"
proof -
  have 1: "''Inst'' \<noteq> ''Regular''" by simp
  from jane_record [OF 1] show ?thesis by auto
qed

text \<open>
  Claim C1 as stated, for any institution name, fails for the name \<open>Regular\<close>: the cell
  \<open>Regular\<close> then equals a value already on the record (the institution name), the
  association rule leaves it, and the fallback stores the left-over cell \<open>48 months\<close> as
  association type.
\<close>

theorem jane_record_regular:
  "map_option (\<lambda>r. (r Association_type, r Institution_name))
     (create_enhanced_record_with_years (Some jane_row) ''Regular'' 3)
   = Some (''48 months'', ''Regular'')"
  by code_simp

section \<open>A date taken for months of experience\<close>



section \<open>No record without a name, and none when the body raises\<close>

text \<open>
  Claim C6: for every input row, record construction returns no record (\<open>None\<close>) whenever
  the name (the cell at index 1, stripped; empty when the row has no such cell) is empty;
  an exception raised inside the body yields \<open>None\<close> as well, from the handler, and does
  not reach the caller; and every record that is returned has a non-empty name, the
  stripped cell at index 1. The body raises exactly when \<open>str\<close> refuses the serial number
  for its number of digits (\<open>ValueError\<close>) or, the serial number converted, the row is
  \<open>None\<close> (\<open>TypeError\<close>). The result is \<open>None\<close> in these cases and for an empty name, and
  in no other.
\<close>

theorem no_record_without_name:
  "(\<forall>e. record_construction row inst n = Inl e
        \<longrightarrow> create_enhanced_record_with_years row inst n = None)
   \<and> (\<forall>e. (record_construction row inst n = Inl e)
          = (if int_max_str_digits < length (decimal \<bar>n\<bar>) then e = ValueError
             else row = None \<and> e = TypeError))
   \<and> (\<forall>cells. row = Some cells \<and> (length cells \<le> 1 \<or> strip (cells ! 1) = [])
        \<longrightarrow> create_enhanced_record_with_years row inst n = None)
   \<and> (create_enhanced_record_with_years row inst n = None)
       = ((\<exists>e. record_construction row inst n = Inl e)
          \<or> (\<exists>cells. row = Some cells \<and> (length cells \<le> 1 \<or> strip (cells ! 1) = [])))
   \<and> (\<forall>r. create_enhanced_record_with_years row inst n = Some r
        \<longrightarrow> r Name \<noteq> []
            \<and> (\<exists>cells. row = Some cells \<and> 1 < length cells \<and> r Name = strip (cells ! 1)))"
proof -
  have name: "fallback cells (the_record (scan cells inst n)) Name
              = (if 1 < length cells then strip (cells ! 1) else [])" for cells
    by (simp add: fallback_Name scan_def foldl_scan_key initial_state_def)
  have handler: "create_enhanced_record_with_years row inst n = None"
    if "record_construction row inst n = Inl e" for e
    using that by (simp add: create_enhanced_record_with_years_def)
  have raises: "(record_construction row inst n = Inl e)
          = (if int_max_str_digits < length (decimal \<bar>n\<bar>) then e = ValueError
             else row = None \<and> e = TypeError)" for e
    by (rule record_construction_raises)
  have none: "(create_enhanced_record_with_years row inst n = None)
       = ((\<exists>e. record_construction row inst n = Inl e)
          \<or> (\<exists>cells. row = Some cells \<and> (length cells \<le> 1 \<or> strip (cells ! 1) = [])))"
  proof (cases row)
    case None
    then show ?thesis
      by (auto simp: create_enhanced_record_with_years_def record_construction_def
          py_str_def)
  next
    case (Some cells)
    then show ?thesis by (auto simp: create_list record_construction_raises name)
  qed
  have empty: "create_enhanced_record_with_years row inst n = None"
    if "row = Some cells \<and> (length cells \<le> 1 \<or> strip (cells ! 1) = [])" for cells
    using that unfolding none by blast
  have named: "r Name \<noteq> []
      \<and> (\<exists>cells. row = Some cells \<and> 1 < length cells \<and> r Name = strip (cells ! 1))"
    if "create_enhanced_record_with_years row inst n = Some r" for r
  proof -
    from create_result [OF that] obtain cells where c: "row = Some cells"
      "r = fallback cells (the_record (scan cells inst n))" "r Name \<noteq> []" by blast
    from c(2,3) have "1 < length cells \<and> r Name = strip (cells ! 1)"
      using name [of cells] by (auto split: if_splits)
    with c show ?thesis by simp
  qed
  from handler raises empty none named show ?thesis by blast
qed

theorem no_record_without_name_witness:
  "strip (nameless_row ! 1) = []
   \<and> create_enhanced_record_with_years (Some nameless_row) ''Inst'' 3 = None
   \<and> record_construction None ''Inst'' 3 = Inl TypeError
   \<and> create_enhanced_record_with_years None ''Inst'' 3 = None
   \<and> record_construction (Some jane_row) ''Inst'' long_serial = Inl ValueError
   \<and> create_enhanced_record_with_years (Some jane_row) ''Inst'' long_serial = None"
proof -
  have 1: "strip (nameless_row ! 1) = []" by code_simp
  have 2: "\<not> int_max_str_digits < length (decimal \<bar>3\<bar>)" by code_simp
  have "(10::int) ^ 4300 \<le> \<bar>long_serial\<bar>" unfolding long_serial_def by (rule abs_ge_self)
  then have 3: "int_max_str_digits < length (decimal \<bar>long_serial\<bar>)"
    unfolding int_max_str_digits_def by (rule length_decimal)
  from no_record_without_name [of "Some nameless_row" "''Inst''" 3] 1
  have a: "create_enhanced_record_with_years (Some nameless_row) ''Inst'' 3 = None"
    by blast
  from no_record_without_name [of None "''Inst''" 3] 2
  have b: "record_construction None ''Inst'' 3 = Inl TypeError"
    "create_enhanced_record_with_years None ''Inst'' 3 = None"
    by simp_all
  from no_record_without_name [of "Some jane_row" "''Inst''" long_serial] 3
  have c: "record_construction (Some jane_row) ''Inst'' long_serial = Inl ValueError"
    "create_enhanced_record_with_years (Some jane_row) ''Inst'' long_serial = None"
    by simp_all
  from 1 a b c show ?thesis by simp
qed

section \<open>A field is assigned at most once\<close>

text \<open>
  Claim C4: for every row, each of the nine inferred fields is assigned at most once.
  In the scan a rule fires only for the key of its own flag, and only while that flag is
  unset and the key still empty; a flag is set exactly when its key holds a text; a flag
  that is set after \<open>k\<close> cells stays set, and its key keeps its text, after any later
  cell; each fallback pass leaves every key that holds a text as it is; and the record
  that is returned carries, for every flag set at some point of the scan, the text stored
  at that point.
\<close>

theorem fields_assigned_once:
  "(\<forall>k c col fl v. fired c (scan_prefix row inst n k) = Some (col, fl, v)
       \<longrightarrow> col = column_of fl \<and> \<not> filled_fields (scan_prefix row inst n k) fl
           \<and> the_record (scan_prefix row inst n k) col = [])
   \<and> (\<forall>k j fl. k \<le> j \<and> filled_fields (scan_prefix row inst n k) fl
       \<longrightarrow> filled_fields (scan_prefix row inst n j) fl
           \<and> the_record (scan_prefix row inst n j) (column_of fl)
               = the_record (scan_prefix row inst n k) (column_of fl))
   \<and> (\<forall>k fl. filled_fields (scan_prefix row inst n k) fl
               = (the_record (scan_prefix row inst n k) (column_of fl) \<noteq> []))
   \<and> scan row inst n = scan_prefix row inst n (length row)
   \<and> (\<forall>r remaining col. r col \<noteq> []
       \<longrightarrow> fst (experience_fallback (r, remaining)) col = r col
           \<and> fst (qualification_fallback (r, remaining)) col = r col
           \<and> association_fallback (r, remaining) col = r col)
   \<and> (\<forall>k fl r. filled_fields (scan_prefix row inst n k) fl
                \<and> create_enhanced_record_with_years (Some row) inst n = Some r
       \<longrightarrow> r (column_of fl) = the_record (scan_prefix row inst n k) (column_of fl))"
proof (intro conjI allI impI)
  fix k c col fl v
  assume f: "fired c (scan_prefix row inst n k) = Some (col, fl, v)"
  then show "col = column_of fl" and nf: "\<not> filled_fields (scan_prefix row inst n k) fl"
    using fired_target by blast+
  from f have "col = column_of fl" using fired_target by blast
  with nf flags_agree_prefix [of row inst n k]
  show "the_record (scan_prefix row inst n k) col = []" by (simp add: flags_agree_def)
next
  fix k j fl
  assume "k \<le> j \<and> filled_fields (scan_prefix row inst n k) fl"
  then have "filled_fields (scan_prefix row inst n j) fl
         \<and> the_record (scan_prefix row inst n j) (column_of fl)
             = the_record (scan_prefix row inst n k) (column_of fl)"
    using scan_prefix_mono by blast
  then show "filled_fields (scan_prefix row inst n j) fl"
    and "the_record (scan_prefix row inst n j) (column_of fl)
             = the_record (scan_prefix row inst n k) (column_of fl)" by simp_all
next
  fix k fl
  show "filled_fields (scan_prefix row inst n k) fl
               = (the_record (scan_prefix row inst n k) (column_of fl) \<noteq> [])"
    using flags_agree_prefix [of row inst n k] by (simp add: flags_agree_def)
next
  show "scan row inst n = scan_prefix row inst n (length row)" by (rule scan_is_prefix)
next
  fix r :: faculty and remaining col
  assume a: "r col \<noteq> []"
  show "fst (experience_fallback (r, remaining)) col = r col"
    using a by (rule experience_fallback_keeps)
  show "fst (qualification_fallback (r, remaining)) col = r col"
    using a by (rule qualification_fallback_keeps)
  show "association_fallback (r, remaining) col = r col"
    using a by (rule association_fallback_keeps)
next
  fix k fl r
  assume a: "filled_fields (scan_prefix row inst n k) fl
                \<and> create_enhanced_record_with_years (Some row) inst n = Some r"
  let ?v = "the_record (scan_prefix row inst n k) (column_of fl)"
  from a have ne: "?v \<noteq> []"
    using flags_agree_prefix [of row inst n k] by (simp add: flags_agree_def)
  have "k \<le> length row \<or> length row \<le> k" by arith
  then have eq: "the_record (scan row inst n) (column_of fl) = ?v"
  proof
    assume "k \<le> length row"
    with a show ?thesis using scan_prefix_mono [of k "length row" row inst n fl]
      by (simp add: scan_is_prefix)
  next
    assume "length row \<le> k"
    then have "scan_prefix row inst n k = scan row inst n"
      by (simp add: scan_def scan_prefix_def)
    then show ?thesis by simp
  qed
  from a have "r = fallback row (the_record (scan row inst n))"
    by (auto simp: create_list split: if_splits)
  then show "r (column_of fl) = ?v"
    using fallback_keeps [of "the_record (scan row inst n)" "column_of fl" row] eq ne
    by simp
qed

theorem fields_assigned_once_witness:
  "filled_fields (scan_prefix jane_row ''Inst'' 3 1) F_Age
   \<and> the_record (scan_prefix jane_row ''Inst'' 3 1) Age = ''34''
   \<and> the_record (scan_prefix jane_row ''Inst'' 3 9) Age = ''34''"
proof -
  have 1: "filled_fields (scan_prefix jane_row ''Inst'' 3 1) F_Age" by code_simp
  have 2: "the_record (scan_prefix jane_row ''Inst'' 3 1) Age = ''34''" by code_simp
  from fields_assigned_once [of jane_row "''Inst''" 3]
  have "\<forall>k j fl. k \<le> j \<and> filled_fields (scan_prefix jane_row ''Inst'' 3 k) fl
       \<longrightarrow> filled_fields (scan_prefix jane_row ''Inst'' 3 j) fl
           \<and> the_record (scan_prefix jane_row ''Inst'' 3 j) (column_of fl)
               = the_record (scan_prefix jane_row ''Inst'' 3 k) (column_of fl)"
    by (elim conjE)
  from this [rule_format, of 1 9 F_Age] 1 2 show ?thesis by simp
qed

section \<open>Cells that read nan or none\<close>

text \<open>
  Claim C10: every cell at index 2 or beyond whose stripped text, lower-cased, is \<open>nan\<close>
  or \<open>none\<close> is skipped by the scan and by the fallback pass. Such a cell leaves the state
  of the scan as it is and is not among the remaining cells of the fallback, so the
  result is the one for the row with these cells emptied; and no inferred field of a
  record that is returned holds a text that reads \<open>nan\<close> or \<open>none\<close>.
\<close>

theorem nan_none_cells_skipped:
  "create_enhanced_record_with_years (Some (blank_nan_none row)) inst n
     = create_enhanced_record_with_years (Some row) inst n
   \<and> (\<forall>st cell. is_nan_none cell \<longrightarrow> scan_cell st cell = st)
   \<and> (\<forall>r cell. is_nan_none cell \<longrightarrow> strip cell \<notin> set (remaining_cells row r))
   \<and> (\<forall>r. create_enhanced_record_with_years (Some row) inst n = Some r
          \<longrightarrow> list_all (\<lambda>col. \<not> nan_none (r col)) inferred_columns)"
proof (intro conjI allI impI)
  show "create_enhanced_record_with_years (Some (blank_nan_none row)) inst n
     = create_enhanced_record_with_years (Some row) inst n"
    by (simp add: create_list scan_blank fallback_def remaining_blank)
next
  fix st cell
  assume "is_nan_none cell"
  then show "scan_cell st cell = st" by (rule scan_cell_nan)
next
  fix r cell
  assume "is_nan_none cell"
  then show "strip cell \<notin> set (remaining_cells row r)"
    using remaining_cells_not_nan by (auto simp: is_nan_none_def)
next
  fix r
  assume "create_enhanced_record_with_years (Some row) inst n = Some r"
  then have "r = fallback row (the_record (scan row inst n))"
    by (auto simp: create_list split: if_splits)
  then have "no_nan r" using fallback_no_nan [OF no_nan_scan] by simp
  then show "list_all (\<lambda>col. \<not> nan_none (r col)) inferred_columns"
    by (simp add: no_nan_inferred)
qed

theorem nan_none_cells_skipped_witness:
  "is_nan_none ''None''
   \<and> scan_cell (initial_state nan_row ''Inst'' 7) ''None'' = initial_state nan_row ''Inst'' 7"
proof -
  have 1: "is_nan_none ''None''" by code_simp
  from nan_none_cells_skipped [of nan_row "''Inst''" 7]
  have "\<forall>st cell. is_nan_none cell \<longrightarrow> scan_cell st cell = st" by (elim conjE)
  from this [rule_format, OF 1] 1 show ?thesis by simp
qed

section \<open>Collected records and the final table\<close>








lemma find_first_named:
  "r \<in> set rs \<Longrightarrow> \<exists>x. find (\<lambda>y. y Name = r Name) rs = Some x \<and> x Name = r Name \<and> x \<in> set rs"
  by (induction rs) auto




text \<open>
  The final table is in ascending order of the numeric key, holds the deduplicated
  records, and numbers them 1 to N. (The order among equal keys is left to the sort of
  the library and is not determined here.)
\<close>

lemma final_serial_dense:
  assumes "save_individual_college_excel records out"
  shows "map fst out = [1..<Suc (length (drop_duplicates_name records))]
    \<and> mset (map snd out) = mset (drop_duplicates_name records)
    \<and> sorted (map (\<lambda>(n, r). s_no_numeric (r S_No)) out)"
proof -
  from assms obtain ys where ys: "mset ys = mset (drop_duplicates_name records)"
    and srt: "sorted (map (\<lambda>r. s_no_numeric (r S_No)) ys)"
    and out: "out = zip [1..<Suc (length ys)] ys"
    by (auto simp: save_individual_college_excel_def sort_values_result_def)
  have len: "length [1..<Suc (length ys)] = length ys" by (simp del: upt_Suc)
  have l: "length ys = length (drop_duplicates_name records)"
    using ys by (rule mset_eq_length)
  have f: "map fst out = [1..<Suc (length ys)]" unfolding out using len by (rule map_fst_zip)
  have s: "map snd out = ys" unfolding out using len by (rule map_snd_zip)
  have "map (\<lambda>(n, r). s_no_numeric (r S_No)) out = map (\<lambda>r. s_no_numeric (r S_No)) (map snd out)"
    by (simp add: case_prod_beta comp_def)
  then have "sorted (map (\<lambda>(n, r). s_no_numeric (r S_No)) out)" using srt s by simp
  then show ?thesis using f s ys l by simp
qed


lemma john_same_serial:
  "map (\<lambda>r. (r S_No, r Name)) (extract_from_single_pdf john_same_serial_pages ''Inst'')
   = [(''1'', ''John Doe'')]"
  by code_simp







end
